theory Spec2Isabelle
  imports Complex_Main "HOL-Library.Sublist"
begin

section \<open>Numbers: the database's numeric type and JavaScript's number formatting\<close>

text \<open>
  Coordinates are stored as \<open>DOUBLE PRECISION\<close> and read back by \<open>parseFloat\<close>. A double
  is carried here as the real number it denotes, and every arithmetic operation on
  doubles, in the database engine (\<open>AVG\<close> on a double precision column, the division of
  a distance by \<open>1000.0\<close>) as in JavaScript, rounds its exact result to the nearest
  double (\<open>float64\<close> below). The two conversions the source writes out, the cast
  \<open>lat::numeric\<close> and \<open>toFixed(2)\<close>, are modelled as the engine and the language define
  them. The engine's \<open>ST_Distance\<close> is a parameter.
\<close>

definition round_half_away :: "real \<Rightarrow> int" where
  \<comment> \<open>nearest integer, ties away from zero: numeric \<open>ROUND\<close>, and \<open>toFixed\<close> on the magnitude\<close>
  "round_half_away x = (if 0 \<le> x then \<lfloor>x + 1 / 2\<rfloor> else - \<lfloor>- x + 1 / 2\<rfloor>)"

definition round_half_even :: "real \<Rightarrow> int" where
  \<comment> \<open>nearest integer, ties to the even one: IEEE arithmetic and \<open>printf\<close>\<close>
  "round_half_even x =
     (let f = \<lfloor>x\<rfloor>; d = x - of_int f
      in if d < 1 / 2 then f else if 1 / 2 < d then f + 1 else if even f then f else f + 1)"

fun ndigits :: "nat \<Rightarrow> nat \<Rightarrow> nat" where
  \<comment> \<open>the number of digits of \<open>n\<close> in base \<open>b\<close>\<close>
  "ndigits b n = (if n < b \<or> b < 2 then 1 else Suc (ndigits b (n div b)))"

definition flog :: "nat \<Rightarrow> real \<Rightarrow> int" where
  \<comment> \<open>\<open>\<lfloor>log\<^sub>b x\<rfloor>\<close> of a positive number\<close>
  "flog b x =
     (if 1 \<le> x then int (ndigits b (nat \<lfloor>x\<rfloor>)) - 1
      else let k = ndigits b (nat \<lfloor>1 / x\<rfloor>) - 1
           in if 1 / x = of_nat b ^ k then - int k else - int k - 1)"

definition float8_numeric :: "real \<Rightarrow> real" where
  \<comment> \<open>the cast \<open>double precision :: numeric\<close>: the value printed with 15 significant digits\<close>
  "float8_numeric x =
     (if x = 0 then 0
      else let s = power_int 10 (14 - flog 10 \<bar>x\<bar>)
           in sgn x * of_int (round_half_even (\<bar>x\<bar> * s)) / s)"

definition sql_round2 :: "real \<Rightarrow> real" where
  \<comment> \<open>\<open>ROUND(v, 2)\<close> on numeric\<close>
  "sql_round2 v = of_int (round_half_away (v * 100)) / 100"

definition cell_coord :: "real \<Rightarrow> real" where
  \<comment> \<open>\<open>ROUND(lat::numeric, 2)\<close>\<close>
  "cell_coord x = sql_round2 (float8_numeric x)"

definition digit_char :: "nat \<Rightarrow> char" where
  "digit_char d = ''0123456789'' ! d"

fun show_nat :: "nat \<Rightarrow> string" where
  "show_nat n = (if n < 10 then [digit_char n] else show_nat (n div 10) @ [digit_char (n mod 10)])"

definition show_hundredths :: "nat \<Rightarrow> string" where
  \<comment> \<open>\<open>n / 100\<close> written with two decimals\<close>
  "show_hundredths n =
     show_nat (n div 100) @ ''.'' @ [digit_char (n mod 100 div 10), digit_char (n mod 10)]"

definition numeric2_text :: "real \<Rightarrow> string" where
  \<comment> \<open>a numeric of scale 2 as text, as \<open>||\<close> converts it; a numeric zero has no sign\<close>
  "numeric2_text v =
     (let n = round_half_away (v * 100)
      in (if n < 0 then ''-'' else '''') @ show_hundredths (nat \<bar>n\<bar>))"

definition toFixed2 :: "real \<Rightarrow> string" where
  \<comment> \<open>\<open>x.toFixed(2)\<close>: the sign of \<open>x\<close>, then the magnitude rounded, ties upwards\<close>
  "toFixed2 x =
     (if x < 0 then ''-'' else '''') @ show_hundredths (nat (round_half_away (\<bar>x\<bar> * 100)))"

definition float64 :: "real \<Rightarrow> real" where
  \<comment> \<open>the double nearest to \<open>x\<close>, ties to even: the result of one arithmetic operation on
      doubles whose exact value is \<open>x\<close> (overflow and subnormal numbers left aside)\<close>
  "float64 x =
     (if x = 0 then 0
      else let u = power_int 2 (flog 2 \<bar>x\<bar> - 52)
           in sgn x * of_int (round_half_even (\<bar>x\<bar> / u)) * u)"

definition js_round :: "real \<Rightarrow> int" where
  \<comment> \<open>\<open>Math.round\<close>: nearest integer, ties towards \<open>+\<infinity>\<close>\<close>
  "js_round x = \<lfloor>x + 1 / 2\<rfloor>"

definition js_ceil :: "real \<Rightarrow> int" where
  "js_ceil x = \<lceil>x\<rceil>"

section \<open>The store: table \<open>upload_rows\<close>\<close>

datatype geocode_status = Pending | Success | Failed

record upload_row =
  row_id :: nat
  upload_id :: nat
  row_index :: nat
  raw_address :: string
  customer_count :: "int option"
  geocode_status :: geocode_status
  lat :: "real option"
  lng :: "real option"
  geocode_error :: "string option"

section \<open>Spatial aggregation: the \<open>grid_cells\<close> sub-query\<close>

definition geocoded :: "nat \<Rightarrow> upload_row list \<Rightarrow> upload_row list" where
  \<comment> \<open>\<open>WHERE upload_id = $1 AND geocode_status = 'success' AND lat IS NOT NULL AND lng IS NOT NULL\<close>\<close>
  "geocoded uid rows =
     filter (\<lambda>r. upload_id r = uid \<and> geocode_status r = Success \<and> lat r \<noteq> None \<and> lng r \<noteq> None) rows"

definition row_key :: "upload_row \<Rightarrow> real \<times> real" where
  \<comment> \<open>the grouping expressions \<open>ROUND(lat::numeric, 2), ROUND(lng::numeric, 2)\<close>\<close>
  "row_key r = (cell_coord (the (lat r)), cell_coord (the (lng r)))"

text \<open>
  The transition state of one group: its key, \<open>COUNT(*)\<close>, the running sums behind
  \<open>AVG(lat)\<close> and \<open>AVG(lng)\<close>, and the state of \<open>SUM(customer_count)\<close>, which skips
  \<open>NULL\<close> and is itself \<open>NULL\<close> until a value has been seen. \<open>AVG\<close> on a double precision
  column keeps a double precision sum that starts at 0: each row is added to it in the
  order of the scan and each addition rounds; the result is the sum divided by the
  count, rounded again. The list \<open>rows\<close> is the table in the order in which it is scanned,
  the same for every aggregation of one insights computation.
\<close>

record agg_state =
  g_key :: "real \<times> real"
  g_n :: nat
  g_sum_lat :: real
  g_sum_lng :: real
  g_sum_customers :: "int option"

definition agg_init :: "upload_row \<Rightarrow> agg_state" where
  \<comment> \<open>the state of a new group after its first row\<close>
  "agg_init r =
     \<lparr>g_key = row_key r, g_n = 1,
      g_sum_lat = float64 (0 + the (lat r)), g_sum_lng = float64 (0 + the (lng r)),
      g_sum_customers = customer_count r\<rparr>"

definition agg_trans :: "upload_row \<Rightarrow> agg_state \<Rightarrow> agg_state" where
  "agg_trans r g =
     g\<lparr>g_n := g_n g + 1,
       g_sum_lat := float64 (g_sum_lat g + the (lat r)),
       g_sum_lng := float64 (g_sum_lng g + the (lng r)),
       g_sum_customers :=
         (case customer_count r of
            None \<Rightarrow> g_sum_customers g
          | Some v \<Rightarrow> (case g_sum_customers g of None \<Rightarrow> Some v | Some s \<Rightarrow> Some (s + v)))\<rparr>"

definition agg_step :: "agg_state list \<Rightarrow> upload_row \<Rightarrow> agg_state list" where
  \<comment> \<open>one row of the scan: advance its group, or open a new one\<close>
  "agg_step gs r =
     (if row_key r \<in> g_key ` set gs
      then map (\<lambda>g. if g_key g = row_key r then agg_trans r g else g) gs
      else gs @ [agg_init r])"

record grid_cell =
  cell_lat :: real
  cell_lng :: real
  count :: nat
  center_lat :: real
  center_lng :: real
  total_customers :: int

definition agg_final :: "agg_state \<Rightarrow> grid_cell" where
  \<comment> \<open>\<open>COUNT(*)\<close>, \<open>AVG(lat)\<close>, \<open>AVG(lng)\<close>, \<open>COALESCE(SUM(customer_count), 0)\<close>\<close>
  "agg_final g =
     \<lparr>cell_lat = fst (g_key g), cell_lng = snd (g_key g), count = g_n g,
      center_lat = float64 (g_sum_lat g / of_nat (g_n g)),
      center_lng = float64 (g_sum_lng g / of_nat (g_n g)),
      total_customers = (case g_sum_customers g of None \<Rightarrow> 0 | Some s \<Rightarrow> s)\<rparr>"

definition grid_cells :: "nat \<Rightarrow> upload_row list \<Rightarrow> grid_cell list" where
  \<comment> \<open>the groups, here in the order in which the scan meets them; no query depends on
      that order, see \<open>order_by\<close>\<close>
  "grid_cells uid rows = map agg_final (foldl agg_step [] (geocoded uid rows))"

definition cell_key :: "grid_cell \<Rightarrow> real \<times> real" where
  "cell_key c = (cell_lat c, cell_lng c)"

definition cell_id :: "grid_cell \<Rightarrow> string" where
  \<comment> \<open>\<open>cell_lat || ',' || cell_lng\<close>\<close>
  "cell_id c = numeric2_text (cell_lat c) @ '','' @ numeric2_text (cell_lng c)"


section \<open>The insights queries\<close>

text \<open>
  \<open>ORDER BY\<close> fixes the order of its rows only up to rows of equal key, and \<open>LIMIT\<close> then
  keeps whichever of them come first. The result is the stable sort, by the key, of the
  rows in the order in which the plan delivers them to the sort; that order is the
  engine's choice and is a parameter here, a rank \<open>arrival\<close> for every row. Every list
  that \<open>ORDER BY\<close> permits arises from some \<open>arrival\<close> (lemma \<open>order_by_complete\<close>).

  What the engine is free to choose is collected in a record: the distance \<open>ST_Distance\<close>
  between two geography points, in metres, where a point is \<open>ST_MakePoint(lng, lat)\<close>; and
  the order of arrival at each of the three \<open>ORDER BY\<close> clauses of the two statements.
\<close>

definition order_by :: "('a \<Rightarrow> 'k::linorder) \<Rightarrow> ('a \<Rightarrow> nat) \<Rightarrow> 'a list \<Rightarrow> 'a list" where
  "order_by key arrival xs = sort_key key (sort_key arrival xs)"

type_synonym geography = "real \<times> real"

record engine =
  st_distance :: "geography \<Rightarrow> geography \<Rightarrow> real"
  dense_arrival :: "grid_cell \<Rightarrow> nat"
  ws_dense_arrival :: "grid_cell \<Rightarrow> nat"
  ws_arrival :: "grid_cell \<Rightarrow> nat"

definition denseAreasResult :: "engine \<Rightarrow> nat \<Rightarrow> upload_row list \<Rightarrow> grid_cell list" where
  \<comment> \<open>the first statement: \<open>SELECT ... FROM grid_cells ORDER BY count DESC LIMIT 3\<close>\<close>
  "denseAreasResult eng uid rows =
     take 3 (order_by (\<lambda>c. - int (count c)) (dense_arrival eng) (grid_cells uid rows))"

definition dense_cells :: "engine \<Rightarrow> nat \<Rightarrow> upload_row list \<Rightarrow> grid_cell list" where
  \<comment> \<open>the sub-query \<open>dense_cells\<close> of the second statement, which groups the rows again:
      \<open>GROUP BY ... ORDER BY COUNT(*) DESC LIMIT 3\<close>\<close>
  "dense_cells eng uid rows =
     take 3 (order_by (\<lambda>c. - int (count c)) (ws_dense_arrival eng) (grid_cells uid rows))"

definition all_cells :: "nat \<Rightarrow> upload_row list \<Rightarrow> grid_cell list" where
  "all_cells uid rows = grid_cells uid rows"

definition distance_km :: "(geography \<Rightarrow> geography \<Rightarrow> real) \<Rightarrow> grid_cell \<Rightarrow> grid_cell \<Rightarrow> real" where
  \<comment> \<open>\<open>ST_Distance(ac point, dc point) / 1000.0\<close>, a division of doubles\<close>
  "distance_km sd ac dc =
     float64 (sd (center_lng ac, center_lat ac) (center_lng dc, center_lat dc) / 1000)"

definition is_dense :: "grid_cell list \<Rightarrow> grid_cell \<Rightarrow> bool" where
  \<comment> \<open>\<open>EXISTS (SELECT 1 FROM dense_cells dc2 WHERE dc2.cell_lat = ac.cell_lat AND dc2.cell_lng = ac.cell_lng)\<close>\<close>
  "is_dense dc ac = (\<exists>dc2 \<in> set dc. cell_lat dc2 = cell_lat ac \<and> cell_lng dc2 = cell_lng ac)"

definition whitespace_candidates :: "engine \<Rightarrow> nat \<Rightarrow> upload_row list \<Rightarrow> (grid_cell \<times> real) list" where
  \<comment> \<open>the cross join with \<open>dense_cells\<close>, grouped back by the cell (cells differ in their key),
      with \<open>MIN(...)\<close> as \<open>distance_km\<close> and the \<open>HAVING\<close> filter; no dense cell, no joined row\<close>
  "whitespace_candidates eng uid rows =
     (let dc = dense_cells eng uid rows
      in if dc = [] then []
         else filter (\<lambda>(ac, d). d \<le> 3)
                (map (\<lambda>ac. (ac, min_list (map (distance_km (st_distance eng) ac) dc)))
                   (filter (\<lambda>ac. count ac \<le> 1 \<and> \<not> is_dense dc ac) (all_cells uid rows))))"

definition whiteSpaceQuery :: "engine \<Rightarrow> nat \<Rightarrow> upload_row list \<Rightarrow> (grid_cell \<times> real) list" where
  \<comment> \<open>\<open>SELECT ... FROM whitespace_candidates ORDER BY distance_km ASC LIMIT 3\<close>\<close>
  "whiteSpaceQuery eng uid rows =
     take 3 (order_by snd (\<lambda>row. ws_arrival eng (fst row)) (whitespace_candidates eng uid rows))"

definition totalCustomers :: "nat \<Rightarrow> upload_row list \<Rightarrow> int" where
  \<comment> \<open>\<open>COALESCE(SUM(customer_count), 0) ... WHERE upload_id = $1 AND geocode_status = 'success'
      AND customer_count IS NOT NULL\<close>\<close>
  "totalCustomers uid rows =
     sum_list (map (\<lambda>r. the (customer_count r))
       (filter (\<lambda>r. upload_id r = uid \<and> geocode_status r = Success \<and> customer_count r \<noteq> None) rows))"

definition customersInTop3 :: "grid_cell list \<Rightarrow> int" where
  \<comment> \<open>\<open>rows.reduce((sum, row) => sum + parseInt(row.total_customers || 0), 0)\<close>\<close>
  "customersInTop3 dense = foldl (\<lambda>sum row. sum + total_customers row) 0 dense"

definition concentration :: "int \<Rightarrow> int \<Rightarrow> int" where
  \<comment> \<open>\<open>totalCustomers > 0 ? Math.round((customersInTop3 / totalCustomers) * 100) : 0\<close>,
      each of the division and the multiplication rounding its result to a double\<close>
  "concentration inTop3 totalC =
     (if totalC > 0 then js_round (float64 (float64 (of_int inTop3 / of_int totalC) * 100)) else 0)"


section \<open>Reverse geocoding\<close>

text \<open>
  The provider's answer to one reverse-geocoding request: the \<open>fetch\<close> fails, or the
  response is not \<open>ok\<close> (with its status code), or it carries a body whose \<open>features\<close>
  may be missing. A missing property is \<open>None\<close>.
\<close>

record context_item =
  c_id :: "string option"
  c_text :: "string option"

record feature =
  f_place_type :: "string list option"
  f_text :: "string option"
  f_place_name :: "string option"
  f_context :: "context_item list option"

datatype fetch_result = FetchError | NotOk nat | Body "feature list option"

definition truthy :: "string option \<Rightarrow> bool" where
  \<comment> \<open>a string in a condition: neither \<open>undefined\<close> nor empty\<close>
  "truthy s = (s \<noteq> None \<and> s \<noteq> Some [])"

definition js_string :: "string option \<Rightarrow> string" where
  \<comment> \<open>a value inside a template literal\<close>
  "js_string s = (case s of None \<Rightarrow> ''undefined'' | Some v \<Rightarrow> v)"

definition coords_text :: "real \<Rightarrow> real \<Rightarrow> string" where
  "coords_text lt lg = toFixed2 lt @ '', '' @ toFixed2 lg"

definition near_text :: "real \<Rightarrow> real \<Rightarrow> string" where
  "near_text lt lg = ''Near '' @ coords_text lt lg"

definition context_text :: "string \<Rightarrow> context_item list \<Rightarrow> string option" where
  \<comment> \<open>\<open>context.find(c => c.id?.startsWith(p))?.text\<close>\<close>
  "context_text p ctx =
     (case find (\<lambda>c. case c_id c of None \<Rightarrow> False | Some i \<Rightarrow> prefix p i) ctx of
        None \<Rightarrow> None
      | Some c \<Rightarrow> c_text c)"

definition area_label :: "real \<Rightarrow> real \<Rightarrow> feature \<Rightarrow> string" where
  "area_label lt lg feat =
     (let ctx = (case f_context feat of None \<Rightarrow> [] | Some c \<Rightarrow> c);
          placeName = f_text feat;
          locality = context_text ''locality'' ctx;
          region = context_text ''region'' ctx
      in if truthy locality \<and> placeName \<noteq> locality
         then js_string placeName @ '' / '' @ js_string locality
         else if truthy region \<and> placeName \<noteq> region
         then js_string placeName @ '' / '' @ js_string region
         else if truthy placeName then js_string placeName
         else (case f_place_name feat of
                 None \<Rightarrow> coords_text lt lg
               | Some pn \<Rightarrow>
                   (let h = takeWhile (\<lambda>c. c \<noteq> CHR '','') pn
                    in if h \<noteq> [] then h else coords_text lt lg)))"

definition priorityTypes :: "string list" where
  "priorityTypes = [''neighborhood'', ''locality'', ''place'', ''district'', ''region'']"

definition has_type :: "string \<Rightarrow> feature \<Rightarrow> bool" where
  \<comment> \<open>\<open>f.place_type && f.place_type.includes(type)\<close>\<close>
  "has_type t f = (case f_place_type f of None \<Rightarrow> False | Some ts \<Rightarrow> t \<in> set ts)"

fun first_priority :: "string list \<Rightarrow> feature list \<Rightarrow> feature option" where
  \<comment> \<open>\<open>for (const type of priorityTypes) { const feature = features.find(...); if (feature) ... }\<close>\<close>
  "first_priority [] fs = None"
| "first_priority (t # ts) fs =
     (case find (has_type t) fs of Some f \<Rightarrow> Some f | None \<Rightarrow> first_priority ts fs)"

definition reverseGeocode :: "real \<Rightarrow> real \<Rightarrow> fetch_result \<Rightarrow> string" where
  "reverseGeocode lt lg res =
     (case res of
        FetchError \<Rightarrow> near_text lt lg
      | NotOk code \<Rightarrow> near_text lt lg
      | Body None \<Rightarrow> near_text lt lg
      | Body (Some []) \<Rightarrow> near_text lt lg
      | Body (Some (firstFeature # others)) \<Rightarrow>
          (case first_priority priorityTypes (firstFeature # others) of
             Some feat \<Rightarrow> area_label lt lg feat
           | None \<Rightarrow>
               if \<not> has_type ''address'' firstFeature
               then (if truthy (f_text firstFeature) then js_string (f_text firstFeature)
                     else coords_text lt lg)
               else near_text lt lg))"

section \<open>Labels and the insights report\<close>

type_synonym mapbox = "real \<Rightarrow> real \<Rightarrow> fetch_result"

type_synonym geocodeCache = "string \<rightharpoonup> string"

definition cache_key :: "real \<times> real \<Rightarrow> string" where
  \<comment> \<open>\<open>`${lat.toFixed(2)},${lng.toFixed(2)}`\<close>\<close>
  "cache_key p = toFixed2 (fst p) @ '','' @ toFixed2 (snd p)"

definition fetched_label :: "mapbox \<Rightarrow> real \<times> real \<Rightarrow> string" where
  "fetched_label mb p = reverseGeocode (fst p) (snd p) (mb (fst p) (snd p))"

text \<open>
  \<open>Promise.all(rows.map(async (row) => ... await getLabel(lat, lng) ...))\<close>: \<open>map\<close> runs
  every callback up to its first suspension, which is the \<open>fetch\<close> inside
  \<open>reverseGeocode\<close>, before any response arrives. So each \<open>geocodeCache.has(key)\<close> of one
  such round reads the cache as it was when the round began, each miss issues its own
  request, and the entries are stored when the responses come in (taken here in the
  order of the rows). \<open>getLabels\<close> returns the labels, the requests issued and the cache
  after the round.
\<close>

definition getLabels ::
  "mapbox \<Rightarrow> geocodeCache \<Rightarrow> (real \<times> real) list \<Rightarrow> string list \<times> (real \<times> real) list \<times> geocodeCache" where
  "getLabels mb cache ps =
     (let labels = map (\<lambda>p. case cache (cache_key p) of Some l \<Rightarrow> l | None \<Rightarrow> fetched_label mb p) ps;
          calls = filter (\<lambda>p. cache (cache_key p) = None) ps;
          cache' = fold (\<lambda>p c. c(cache_key p \<mapsto> fetched_label mb p)) calls cache
      in (labels, calls, cache'))"

record area =
  cellId :: string
  areaCount :: nat
  center :: "real \<times> real"
  label :: string

record whitespace_area = area +
  distanceKm :: real

record insights_report =
  topDenseAreas :: "area list"
  concentrationPercent :: int
  whiteSpaceAreas :: "whitespace_area list"

definition cell_center :: "grid_cell \<Rightarrow> real \<times> real" where
  \<comment> \<open>\<open>parseFloat(row.lat), parseFloat(row.lng)\<close>\<close>
  "cell_center c = (center_lat c, center_lng c)"

definition dense_area :: "grid_cell \<Rightarrow> string \<Rightarrow> area" where
  "dense_area row l = \<lparr>cellId = cell_id row, areaCount = count row, center = cell_center row, label = l\<rparr>"

definition round1 :: "real \<Rightarrow> real" where
  \<comment> \<open>\<open>Math.round(d * 10) / 10\<close>, the product and the quotient each rounded to a double\<close>
  "round1 d = float64 (of_int (js_round (float64 (d * 10))) / 10)"

definition whitespace_area_of :: "grid_cell \<times> real \<Rightarrow> string \<Rightarrow> whitespace_area" where
  "whitespace_area_of row l =
     \<lparr>cellId = cell_id (fst row), areaCount = count (fst row), center = cell_center (fst row),
      label = l, distanceKm = round1 (snd row)\<rparr>"

definition insights ::
  "engine \<Rightarrow> mapbox \<Rightarrow> nat \<Rightarrow> upload_row list \<Rightarrow> insights_report \<times> (real \<times> real) list" where
  \<comment> \<open>the handler of \<open>GET /api/uploads/:id/insights\<close> on a store that answers every query:
      the report sent, and the reverse-geocoding requests made, with a fresh cache\<close>
  "insights eng mb uid rows =
     (let denseRows = denseAreasResult eng uid rows;
          (labels1, calls1, cache1) = getLabels mb Map.empty (map cell_center denseRows);
          top = map2 dense_area denseRows labels1;
          pct = concentration (customersInTop3 denseRows) (totalCustomers uid rows);
          wsRows = (if top \<noteq> [] then whiteSpaceQuery eng uid rows else []);
          (labels2, calls2, cache2) = getLabels mb cache1 (map (\<lambda>row. cell_center (fst row)) wsRows);
          ws = map2 whitespace_area_of wsRows labels2
      in (\<lparr>topDenseAreas = top, concentrationPercent = pct, whiteSpaceAreas = ws\<rparr>,
          calls1 @ calls2))"

datatype json = JNum real | JStr string | JArr "json list" | JObj "(string \<times> json) list"

definition center_json :: "real \<times> real \<Rightarrow> json" where
  "center_json p = JObj [(''lat'', JNum (fst p)), (''lng'', JNum (snd p))]"

definition area_json :: "area \<Rightarrow> json" where
  "area_json a =
     JObj [(''cellId'', JStr (cellId a)), (''count'', JNum (of_nat (areaCount a))),
           (''center'', center_json (center a)), (''label'', JStr (label a))]"

definition whitespace_json :: "whitespace_area \<Rightarrow> json" where
  "whitespace_json a =
     JObj [(''cellId'', JStr (cellId a)), (''count'', JNum (of_nat (areaCount a))),
           (''center'', center_json (center a)), (''distanceKm'', JNum (distanceKm a)),
           (''label'', JStr (label a))]"

definition insights_json :: "insights_report \<Rightarrow> json" where
  \<comment> \<open>\<open>res.json({ topDenseAreas, concentrationPercent, whiteSpaceAreas })\<close>\<close>
  "insights_json rep =
     JObj [(''topDenseAreas'', JArr (map area_json (topDenseAreas rep))),
           (''concentrationPercent'', JNum (of_int (concentrationPercent rep))),
           (''whiteSpaceAreas'', JArr (map whitespace_json (whiteSpaceAreas rep)))]"

definition json_field :: "string \<Rightarrow> json \<Rightarrow> json option" where
  "json_field k j = (case j of JObj kvs \<Rightarrow> map_of kvs k | _ \<Rightarrow> None)"

definition radius :: "whitespace_area \<Rightarrow> real" where
  \<comment> \<open>the presentation layer: \<open>Math.min(3, Math.max(0.5, Math.ceil(area.distanceKm)))\<close>\<close>
  "radius a = min 3 (max (1 / 2) (of_int (js_ceil (distanceKm a))))"

section \<open>The geocoding pipeline\<close>

datatype upload_status = Uploaded | Processing | Done | UploadFailed

record store =
  uploads :: "nat \<rightharpoonup> upload_status"
  upload_rows :: "upload_row list"

text \<open>
  What \<open>geocodeAddress\<close> returns for the call made for a row: it catches every fault of
  the provider, so it yields coordinates (\<open>feature.center\<close>, whose entries may be
  missing) or a failure with its reason.
\<close>

datatype geocode_result = GeoOk "real option" "real option" | GeoFail string

type_synonym resolver = "upload_row \<Rightarrow> geocode_result"

definition succeeded :: "geocode_result \<Rightarrow> bool" where
  "succeeded res = (case res of GeoOk lt lg \<Rightarrow> True | GeoFail e \<Rightarrow> False)"

text \<open>
  The statements the handler sends to the store. The store may refuse any of them (the
  promise of \<open>pool.query\<close> rejects): \<open>refused n q\<close> says that it refuses statement \<open>q\<close> when
  \<open>q\<close> is the \<open>n\<close>-th statement of the run, counted from 0. A refused statement changes
  nothing and throws into the \<open>catch\<close> branch of the handler.
\<close>

datatype statement =
    SelectUpload nat
  | UpdateStatus nat upload_status
  | SelectPending nat
  | UpdateRow nat geocode_result

type_synonym faults = "nat \<Rightarrow> statement \<Rightarrow> bool"

definition update_row :: "geocode_result \<Rightarrow> upload_row \<Rightarrow> upload_row" where
  \<comment> \<open>the two \<open>UPDATE upload_rows ... WHERE id = $n\<close> statements\<close>
  "update_row res r =
     (case res of
        GeoOk lt lg \<Rightarrow> r\<lparr>lat := lt, lng := lg, geocode_status := Success, geocode_error := None\<rparr>
      | GeoFail e \<Rightarrow> r\<lparr>geocode_status := Failed, geocode_error := Some e\<rparr>)"

record run_state =
  table :: "upload_row list"
  successCount :: nat
  failedCount :: nat
  resolved :: "upload_row list"
  issued :: nat
  rejected :: bool

definition process_row :: "faults \<Rightarrow> resolver \<Rightarrow> upload_row \<Rightarrow> run_state \<Rightarrow> run_state" where
  \<comment> \<open>the callback of \<open>batch.map\<close> for one row: the call of \<open>geocodeAddress\<close>, then the
      \<open>UPDATE\<close> of the row and, if the store took it, the counter\<close>
  "process_row refused geocodeAddress row s =
     (let result = geocodeAddress row;
          s1 = s\<lparr>resolved := resolved s @ [row], issued := issued s + 1\<rparr>;
          tbl = map (\<lambda>r. if row_id r = row_id row then update_row result r else r) (table s)
      in if refused (issued s) (UpdateRow (row_id row) result) then s1\<lparr>rejected := True\<rparr>
         else if succeeded result
         then s1\<lparr>table := tbl, successCount := successCount s + 1\<rparr>
         else s1\<lparr>table := tbl, failedCount := failedCount s + 1\<rparr>)"

definition batchSize :: nat where
  "batchSize = 10"

text \<open>
  \<open>for (let i = 0; i < rows.length; i += batchSize)\<close> over \<open>rows.slice(i, i + batchSize)\<close>.
  The callbacks of one batch all start, so every row of the batch is resolved and its
  \<open>UPDATE\<close> sent, also after another \<open>UPDATE\<close> of the batch was refused; the rows of a batch
  touch different table rows, and their statements are counted in the order of the rows.
  \<open>await Promise.all(batchPromises)\<close> throws if one of them was refused, which ends the
  loop.
\<close>

function geocode_batches ::
  "faults \<Rightarrow> resolver \<Rightarrow> upload_row list \<Rightarrow> nat \<Rightarrow> run_state \<Rightarrow> run_state" where
  "geocode_batches refused geocodeAddress rows i s =
     (if i < length rows
      then let s' = fold (process_row refused geocodeAddress) (take batchSize (drop i rows)) s
           in if rejected s' then s'
              else geocode_batches refused geocodeAddress rows (i + batchSize) s'
      else s)"
  by pat_completeness auto
termination
  by (relation "measure (\<lambda>(f, g, rows, i, s). length rows - i)") (auto simp: batchSize_def)

definition set_status :: "nat \<Rightarrow> upload_status \<Rightarrow> store \<Rightarrow> store" where
  \<comment> \<open>\<open>UPDATE uploads SET status = $1 WHERE id = $2\<close>\<close>
  "set_status uid s st =
     (if uploads st uid = None then st else st\<lparr>uploads := (uploads st)(uid \<mapsto> s)\<rparr>)"

datatype geocode_response = NotFound | Started | NoResponse

record geocode_outcome =
  response :: geocode_response
  after :: store
  status_writes :: "upload_status list"
  resolver_calls :: "upload_row list"
  thrown :: bool

definition pending_rows :: "nat \<Rightarrow> store \<Rightarrow> upload_row list" where
  \<comment> \<open>\<open>SELECT id, raw_address FROM upload_rows WHERE upload_id = $1 AND geocode_status = 'pending'\<close>\<close>
  "pending_rows uid st = filter (\<lambda>r. upload_id r = uid \<and> geocode_status r = Pending) (upload_rows st)"

definition caught ::
  "faults \<Rightarrow> nat \<Rightarrow> nat \<Rightarrow> geocode_response \<Rightarrow> store \<Rightarrow> upload_status list \<Rightarrow> upload_row list
     \<Rightarrow> geocode_outcome" where
  \<comment> \<open>\<open>catch (error) { await pool.query('UPDATE uploads SET status = $1 WHERE id = $2',
      ['failed', uploadId]) }\<close>, as statement \<open>n\<close>; if this one is refused too, nothing is
      left to run\<close>
  "caught refused n uid resp st writes calls =
     (if refused n (UpdateStatus uid UploadFailed)
      then \<lparr>response = resp, after = st, status_writes = writes, resolver_calls = calls,
            thrown = True\<rparr>
      else \<lparr>response = resp, after = set_status uid UploadFailed st,
            status_writes = writes @ [UploadFailed], resolver_calls = calls, thrown = True\<rparr>)"

definition start_geocoding :: "faults \<Rightarrow> resolver \<Rightarrow> nat \<Rightarrow> store \<Rightarrow> geocode_outcome" where
  \<comment> \<open>the handler of \<open>POST /api/uploads/:id/geocode\<close>, run to its end: the response sent
      (none if a statement is refused before \<open>res.json\<close>), the store it leaves, the statuses
      it wrote, the rows it called \<open>geocodeAddress\<close> for, and whether it ended in \<open>catch\<close>\<close>
  "start_geocoding refused geocodeAddress uid st =
     (if refused 0 (SelectUpload uid) then caught refused 1 uid NoResponse st [] []
      else if uploads st uid = None
      then \<lparr>response = NotFound, after = st, status_writes = [], resolver_calls = [],
            thrown = False\<rparr>
      else if refused 1 (UpdateStatus uid Processing) then caught refused 2 uid NoResponse st [] []
      else
        let st1 = set_status uid Processing st
        in if refused 2 (SelectPending uid) then caught refused 3 uid Started st1 [Processing] []
           else
             let rows = pending_rows uid st1
             in if length rows = 0
                then (if refused 3 (UpdateStatus uid Done)
                      then caught refused 4 uid Started st1 [Processing] []
                      else \<lparr>response = Started, after = set_status uid Done st1,
                            status_writes = [Processing, Done], resolver_calls = [],
                            thrown = False\<rparr>)
                else
                  let s = geocode_batches refused geocodeAddress rows 0
                            \<lparr>table = upload_rows st1, successCount = 0, failedCount = 0,
                             resolved = [], issued = 3, rejected = False\<rparr>;
                      st2 = st1\<lparr>upload_rows := table s\<rparr>;
                      finalStatus = (if successCount s > 0 then Done else UploadFailed)
                  in if rejected s
                     then caught refused (issued s) uid Started st2 [Processing] (resolved s)
                     else if refused (issued s) (UpdateStatus uid finalStatus)
                     then caught refused (issued s + 1) uid Started st2 [Processing] (resolved s)
                     else \<lparr>response = Started, after = set_status uid finalStatus st2,
                           status_writes = [Processing, finalStatus],
                           resolver_calls = resolved s, thrown = False\<rparr>)"

definition get_points :: "nat \<Rightarrow> store \<Rightarrow> (nat \<times> real \<times> real) list" where
  \<comment> \<open>\<open>SELECT id, lat, lng ... ORDER BY row_index\<close>\<close>
  "get_points uid st =
     map (\<lambda>r. (row_id r, the (lat r), the (lng r))) (sort_key row_index (geocoded uid (upload_rows st)))"

datatype operation =
    StartGeocoding faults resolver nat
  | GetUpload nat
  | GetPoints nat
  | GetInsights engine mapbox nat

fun apply_operation :: "operation \<Rightarrow> store \<Rightarrow> store" where
  \<comment> \<open>the store after an operation; the three queries only read\<close>
  "apply_operation (StartGeocoding refused geocodeAddress uid) st =
     after (start_geocoding refused geocodeAddress uid st)"
| "apply_operation (GetUpload uid) st = st"
| "apply_operation (GetPoints uid) st = st"
| "apply_operation (GetInsights eng mb uid) st = st"

section \<open>Sample data\<close>

definition taxicab_metres :: "geography \<Rightarrow> geography \<Rightarrow> real" where
  \<comment> \<open>a stand-in for the engine's distance where one is evaluated: 128 km per degree, so
      that the sample distances are doubles\<close>
  "taxicab_metres p q = 128000 * (\<bar>fst p - fst q\<bar> + \<bar>snd p - snd q\<bar>)"

definition sample_engine :: engine where
  \<comment> \<open>an engine that delivers the rows to every \<open>ORDER BY\<close> in the order of the grouping\<close>
  "sample_engine =
     \<lparr>st_distance = taxicab_metres, dense_arrival = (\<lambda>c. 0), ws_dense_arrival = (\<lambda>c. 0),
      ws_arrival = (\<lambda>c. 0)\<rparr>"

definition geocoded_row :: "nat \<Rightarrow> real \<Rightarrow> real \<Rightarrow> int option \<Rightarrow> upload_row" where
  "geocoded_row i lt lg c =
     \<lparr>row_id = i, upload_id = 7, row_index = i, raw_address = ''address'',
      customer_count = c, geocode_status = Success, lat = Some lt, lng = Some lg,
      geocode_error = None\<rparr>"

definition sample_rows :: "upload_row list" where
  \<comment> \<open>three cells of two rows each, then four cells of one row at 2.96875, 4, 1.125 and
      1.09375 km from the first; all coordinates are doubles\<close>
  "sample_rows =
     [geocoded_row 1 10 20 (Some 10), geocoded_row 2 10 20 None,
      geocoded_row 3 (21 / 2) (41 / 2) (Some 5), geocoded_row 4 (21 / 2) (41 / 2) (Some 5),
      geocoded_row 5 11 21 None, geocoded_row 6 11 21 None,
      geocoded_row 7 (641 / 64) (81951 / 4096) (Some 7),
      geocoded_row 8 (321 / 32) 20 (Some 3),
      geocoded_row 9 10 (20489 / 1024) None,
      geocoded_row 10 (40995 / 4096) 20 (Some 0)]"

definition no_mapbox :: mapbox where
  "no_mapbox lt lg = FetchError"

definition example_points :: "upload_row list" where
  \<comment> \<open>the doubles nearest to (37.774901, -122.419412) and (37.774888, -122.419399)\<close>
  "example_points =
     [geocoded_row 1 (float64 (37774901 / 1000000)) (float64 (- (122419412 / 1000000))) (Some 4),
      geocoded_row 2 (float64 (37774888 / 1000000)) (float64 (- (122419399 / 1000000))) None]"

definition tenth_rows :: "upload_row list" where
  \<comment> \<open>three rows at the double nearest to 0.1 north, 20 east\<close>
  "tenth_rows =
     [geocoded_row 1 (float64 (1 / 10)) 20 None, geocoded_row 2 (float64 (1 / 10)) 20 None,
      geocoded_row 3 (float64 (1 / 10)) 20 None]"

definition pending_row :: "nat \<Rightarrow> nat \<Rightarrow> string \<Rightarrow> upload_row" where
  "pending_row i uid address =
     \<lparr>row_id = i, upload_id = uid, row_index = i, raw_address = address,
      customer_count = None, geocode_status = Pending, lat = None, lng = None,
      geocode_error = None\<rparr>"

definition failed_row :: "nat \<Rightarrow> nat \<Rightarrow> string \<Rightarrow> upload_row" where
  "failed_row i uid address =
     \<lparr>row_id = i, upload_id = uid, row_index = i, raw_address = address,
      customer_count = None, geocode_status = Failed, lat = None, lng = None,
      geocode_error = Some ''no result''\<rparr>"

definition sample_store :: store where
  \<comment> \<open>upload 7 with two pending rows, upload 8 whose run has failed, upload 9 without rows\<close>
  "sample_store =
     \<lparr>uploads = [7 \<mapsto> Uploaded, 8 \<mapsto> UploadFailed, 9 \<mapsto> Uploaded],
      upload_rows = [pending_row 71 7 ''1 Main St'', pending_row 72 7 ''nowhere'',
                     failed_row 81 8 ''nowhere'']\<rparr>"

definition eleven_store :: store where
  \<comment> \<open>upload 5 with eleven pending rows\<close>
  "eleven_store =
     \<lparr>uploads = [5 \<mapsto> Uploaded],
      upload_rows = map (\<lambda>i. pending_row i 5 ''1 Main St'') [1, 2, 3, 4, 5, 6, 7, 8, 9, 10, 11]\<rparr>"

definition no_faults :: faults where
  "no_faults n q = False"

definition refuse_row :: "nat \<Rightarrow> faults" where
  \<comment> \<open>the store refuses the \<open>UPDATE\<close> of one row, and nothing else\<close>
  "refuse_row i n q = (case q of UpdateRow j res \<Rightarrow> j = i | _ \<Rightarrow> False)"

definition sample_resolver :: resolver where
  "sample_resolver r =
     (if raw_address r = ''1 Main St'' then GeoOk (Some 10) (Some 20) else GeoFail ''no result'')"

definition failing_resolver :: resolver where
  "failing_resolver r = GeoFail ''no result''"

definition street_feature :: feature where
  "street_feature =
     \<lparr>f_place_type = Some [''address''], f_text = Some ''Main St'',
      f_place_name = Some ''1 Main St, Springfield'', f_context = None\<rparr>"

definition cafe_feature :: feature where
  "cafe_feature =
     \<lparr>f_place_type = Some [''poi''], f_text = Some ''Cafe'',
      f_place_name = Some ''Cafe, 1 Main St, Springfield'', f_context = None\<rparr>"

definition city_feature :: feature where
  "city_feature =
     \<lparr>f_place_type = Some [''place''], f_text = Some ''San Francisco'',
      f_place_name = Some ''San Francisco, California'',
      f_context = Some [\<lparr>c_id = Some ''region.3'', c_text = Some ''California''\<rparr>]\<rparr>"

definition hood_feature :: feature where
  "hood_feature =
     \<lparr>f_place_type = Some [''neighborhood''], f_text = Some ''Mission District'',
      f_place_name = Some ''Mission District, San Francisco, California'',
      f_context = Some [\<lparr>c_id = Some ''postcode.1'', c_text = Some ''94110''\<rparr>,
                        \<lparr>c_id = Some ''place.2'', c_text = Some ''San Francisco''\<rparr>,
                        \<lparr>c_id = Some ''region.3'', c_text = Some ''California''\<rparr>]\<rparr>"

definition boundary_rows :: "upload_row list" where
  \<comment> \<open>two rows at the doubles 37.775 and 37.774 north, -122.42 east\<close>
  "boundary_rows =
     [geocoded_row 1 (float64 (37775 / 1000)) (float64 (- (12242 / 100))) None,
      geocoded_row 2 (float64 (37774 / 1000)) (float64 (- (12242 / 100))) None]"

definition counted_rows :: "int \<Rightarrow> int \<Rightarrow> upload_row list" where
  \<comment> \<open>three cells of two rows, the first with \<open>a\<close> customers, and a cell of one row
      with \<open>d\<close> customers\<close>
  "counted_rows a d =
     [geocoded_row 1 10 20 (Some a), geocoded_row 2 10 20 None,
      geocoded_row 3 (21 / 2) (41 / 2) None, geocoded_row 4 (21 / 2) (41 / 2) None,
      geocoded_row 5 11 21 None, geocoded_row 6 11 21 None,
      geocoded_row 7 (321 / 32) 20 (Some d)]"

section \<open>Vocabulary of the properties\<close>

definition cc0 :: "upload_row \<Rightarrow> int" where
  \<comment> \<open>a row's customer count, a missing one counted as 0\<close>
  "cc0 r = (case customer_count r of None \<Rightarrow> 0 | Some v \<Rightarrow> v)"

definition members :: "real \<times> real \<Rightarrow> upload_row list \<Rightarrow> upload_row list" where
  "members k rs = filter (\<lambda>r. row_key r = k) rs"

definition cell_rows :: "nat \<Rightarrow> upload_row list \<Rightarrow> grid_cell \<Rightarrow> upload_row list" where
  \<comment> \<open>the member rows of a cell: the geocoded rows of the upload that round to its key\<close>
  "cell_rows uid rows c = members (cell_key c) (geocoded uid rows)"

definition mean :: "real list \<Rightarrow> real" where
  \<comment> \<open>the arithmetic mean, exactly\<close>
  "mean xs = sum_list xs / of_nat (length xs)"

definition float_sum :: "real list \<Rightarrow> real" where
  \<comment> \<open>the sum in double arithmetic, from the left\<close>
  "float_sum xs = foldl (\<lambda>s x. float64 (s + x)) 0 xs"

definition float_mean :: "real list \<Rightarrow> real" where
  \<comment> \<open>the arithmetic mean in double arithmetic\<close>
  "float_mean xs = float64 (float_sum xs / of_nat (length xs))"

definition agg_ok :: "upload_row list \<Rightarrow> agg_state \<Rightarrow> bool" where
  \<comment> \<open>the transition state of a group agrees with the rows scanned so far\<close>
  "agg_ok rs g =
     (let ms = members (g_key g) rs
      in ms \<noteq> [] \<and> g_n g = length ms
         \<and> g_sum_lat g = float_sum (map (\<lambda>r. the (lat r)) ms)
         \<and> g_sum_lng g = float_sum (map (\<lambda>r. the (lng r)) ms)
         \<and> (case g_sum_customers g of None \<Rightarrow> 0 | Some s \<Rightarrow> s) = sum_list (map cc0 ms))"

definition top3_by_count :: "grid_cell list \<Rightarrow> grid_cell list \<Rightarrow> bool" where
  \<comment> \<open>\<open>ds\<close> is a choice of the three cells of highest count among \<open>cells\<close> (of all of them
      if there are fewer), highest first: no cell left out has a higher count than a
      chosen one\<close>
  "top3_by_count cells ds =
     (distinct ds \<and> set ds \<subseteq> set cells \<and> length ds = min 3 (length cells)
      \<and> sorted (map (\<lambda>c. - int (count c)) ds)
      \<and> (\<forall>c \<in> set cells - set ds. \<forall>d \<in> set ds. count c \<le> count d))"

definition preferred_type :: "feature list \<Rightarrow> string option" where
  \<comment> \<open>the first of the preferred classifications, in priority order, that a candidate has\<close>
  "preferred_type fs = find (\<lambda>t. \<exists>f \<in> set fs. has_type t f) priorityTypes"

definition composed_label :: "feature \<Rightarrow> string" where
  \<comment> \<open>\<open>name / locality\<close>, else \<open>name / region\<close>, where that one exists and differs from
      the name; else the bare name. For a candidate that has a name.\<close>
  "composed_label f =
     (let name = the (f_text f);
          ctx = (case f_context f of None \<Rightarrow> [] | Some c \<Rightarrow> c);
          locality = context_text ''locality'' ctx;
          region = context_text ''region'' ctx
      in if truthy locality \<and> the locality \<noteq> name then name @ '' / '' @ the locality
         else if truthy region \<and> the region \<noteq> name then name @ '' / '' @ the region
         else name)"

definition round_half_up :: "real \<Rightarrow> int" where
  "round_half_up x = \<lfloor>x + 1 / 2\<rfloor>"

definition top3_customers :: "engine \<Rightarrow> nat \<Rightarrow> upload_row list \<Rightarrow> int" where
  \<comment> \<open>the customer counts of the geocoded rows whose cell is one of the dense cells that the
      first statement returns\<close>
  "top3_customers eng uid rows =
     sum_list (map cc0
       (filter (\<lambda>r. row_key r \<in> cell_key ` set (denseAreasResult eng uid rows)) (geocoded uid rows)))"

definition success_customers :: "nat \<Rightarrow> upload_row list \<Rightarrow> int" where
  \<comment> \<open>the customer counts of all rows of the upload with status success\<close>
  "success_customers uid rows =
     sum_list (map cc0 (filter (\<lambda>r. upload_id r = uid \<and> geocode_status r = Success) rows))"


section \<open>Double arithmetic\<close>

declare ndigits.simps [simp del] show_nat.simps [simp del]

lemma ndigits_pos: "0 < ndigits b n"
  by (subst ndigits.simps) simp

lemma ndigits_bounds:
  assumes "2 \<le> b" and "0 < n"
  shows "b ^ (ndigits b n - 1) \<le> n \<and> n < b ^ ndigits b n"
  using assms
proof (induction b n rule: ndigits.induct)
  case (1 b n)
  show ?case
  proof (cases "n < b")
    case True
    with "1.prems" show ?thesis by (simp add: ndigits.simps[of b n])
  next
    case False
    with "1.prems" have nb: "\<not> (n < b \<or> b < 2)" by simp
    from False "1.prems" have pos: "0 < n div b" by (simp add: div_greater_zero_iff)
    define d where "d = ndigits b (n div b)"
    from "1.IH"[OF nb "1.prems"(1) pos]
    have lo: "b ^ (d - 1) \<le> n div b" and hi: "n div b < b ^ d" by (simp_all add: d_def)
    have dpos: "0 < d" unfolding d_def by (rule ndigits_pos)
    have nd: "ndigits b n = Suc d" using nb by (simp add: ndigits.simps[of b n] d_def)
    have "b ^ d = b * b ^ (d - 1)" using dpos by (cases d) simp_all
    also have "\<dots> \<le> b * (n div b)" using lo by simp
    also have "\<dots> \<le> n" by simp
    finally have 1: "b ^ d \<le> n" .
    from hi have "n div b + 1 \<le> b ^ d" by simp
    then have "b * (n div b + 1) \<le> b * b ^ d" by (rule mult_le_mono2)
    moreover have "n < b * (n div b + 1)"
      using "1.prems"(1) by (metis Suc_eq_plus1 dividend_less_times_div mult.commute mult_Suc_right add.commute gr0I not_numeral_le_zero)
    ultimately have 2: "n < b ^ Suc d" by simp
    from 1 2 show ?thesis by (simp add: nd)
  qed
qed

lemma flog_bounds:
  assumes b: "2 \<le> b" and x: "0 < x"
  shows "of_nat b powi flog b x \<le> x \<and> x < of_nat b powi (flog b x + 1)"
proof (cases "1 \<le> x")
  case True
  define n where "n = nat \<lfloor>x\<rfloor>"
  define d where "d = ndigits b n"
  from True have npos: "0 < n" unfolding n_def by simp
  have dpos: "0 < d" unfolding d_def by (rule ndigits_pos)
  from ndigits_bounds[OF b npos] have lo: "b ^ (d - 1) \<le> n" and hi: "n < b ^ d"
    by (simp_all add: d_def)
  have "0 \<le> \<lfloor>x\<rfloor>" using True by simp
  then have rn: "real n = of_int \<lfloor>x\<rfloor>" unfolding n_def by (simp only: of_nat_nat)
  have nx: "real n \<le> x" and xn: "x < real n + 1"
    unfolding rn by linarith+
  have f: "flog b x = int d - 1" using True by (simp add: flog_def n_def d_def)
  have e1: "of_nat b powi (int d - 1) = (of_nat b :: real) ^ (d - 1)"
    using dpos by (metis of_nat_diff of_nat_1 Suc_leI One_nat_def power_int_of_nat)
  have e2: "of_nat b powi (int d - 1 + 1) = (of_nat b :: real) ^ d" by simp
  from lo have "real (b ^ (d - 1)) \<le> real n" by (rule of_nat_mono)
  then have "(of_nat b :: real) ^ (d - 1) \<le> real n" by (simp only: of_nat_power)
  with nx have 1: "(of_nat b :: real) ^ (d - 1) \<le> x" by linarith
  from hi have "n + 1 \<le> b ^ d" by simp
  then have "real (n + 1) \<le> real (b ^ d)" by (rule of_nat_mono)
  then have "real n + 1 \<le> (of_nat b :: real) ^ d" by (simp only: of_nat_power of_nat_add of_nat_1)
  with xn have 2: "x < (of_nat b :: real) ^ d" by linarith
  from 1 2 show ?thesis unfolding f e1 e2 by simp
next
  case False
  define y where "y = 1 / x"
  from False x have y1: "1 < y" unfolding y_def by simp
  define m where "m = nat \<lfloor>y\<rfloor>"
  define k where "k = ndigits b m - 1"
  from y1 have mpos: "0 < m" unfolding m_def by simp
  have dpos: "0 < ndigits b m" by (rule ndigits_pos)
  then have kd: "ndigits b m = Suc k" unfolding k_def by simp
  from ndigits_bounds[OF b mpos] have lo: "b ^ k \<le> m" and hi: "m < b ^ Suc k"
    unfolding kd by simp_all
  have "0 \<le> \<lfloor>y\<rfloor>" using y1 by simp
  then have rm: "real m = of_int \<lfloor>y\<rfloor>" unfolding m_def by (simp only: of_nat_nat)
  have my: "real m \<le> y" and ym: "y < real m + 1"
    unfolding rm by linarith+
  from lo have "real (b ^ k) \<le> real m" by (rule of_nat_mono)
  then have "(of_nat b :: real) ^ k \<le> real m" by (simp only: of_nat_power)
  with my have 1: "(of_nat b :: real) ^ k \<le> y" by linarith
  from hi have "m + 1 \<le> b ^ Suc k" by simp
  then have "real (m + 1) \<le> real (b ^ Suc k)" by (rule of_nat_mono)
  then have "real m + 1 \<le> (of_nat b :: real) ^ Suc k" by (simp only: of_nat_power of_nat_add of_nat_1)
  with ym have 2: "y < (of_nat b :: real) ^ Suc k" by linarith
  have bpos: "0 < (of_nat b :: real)" and b1: "1 < (of_nat b :: real)" using b by simp_all
  have pk: "0 < (of_nat b :: real) ^ k" using bpos by simp
  have xy: "x = 1 / y" unfolding y_def by simp
  have ypos: "0 < y" using y1 by simp
  show ?thesis
  proof (cases "y = of_nat b ^ k")
    case True
    then have f: "flog b x = - int k" using False by (simp add: flog_def y_def m_def k_def Let_def)
    have a: "of_nat b powi (- int k) = x"
      unfolding xy True by (simp add: power_int_minus field_simps)
    have "(of_nat b :: real) powi (- int k + 1) = of_nat b * (of_nat b powi (- int k))"
      by (rule power_int_add_1') (use bpos in simp)
    then have "of_nat b powi (- int k + 1) = of_nat b * x" by (simp only: a)
    moreover have "x < of_nat b * x" using b1 x by simp
    ultimately show ?thesis unfolding f a by simp
  next
    case ne: False
    then have f: "flog b x = - int k - 1" using False by (simp add: flog_def y_def m_def k_def Let_def)
    from ne 1 have lt: "(of_nat b :: real) ^ k < y" by simp
    have a: "of_nat b powi (- int k - 1 + 1) = 1 / (of_nat b :: real) ^ k"
      by (simp add: power_int_minus field_simps)
    have c: "of_nat b powi (- int k - 1) = 1 / (of_nat b :: real) ^ Suc k"
    proof -
      have "- int k - 1 = - int (Suc k)" by simp
      then show ?thesis by (simp only: power_int_minus power_int_of_nat) (simp add: field_simps)
    qed
    have "1 / (of_nat b :: real) ^ Suc k < 1 / y"
      using 2 ypos by (simp add: frac_less2)
    then have g1: "1 / (of_nat b :: real) ^ Suc k < x" by (simp only: xy)
    have "1 / y < 1 / (of_nat b :: real) ^ k"
      using lt pk by (simp add: frac_less2)
    then have g2: "x < 1 / (of_nat b :: real) ^ k" by (simp only: xy)
    from g1 g2 show ?thesis unfolding f a c by simp
  qed
qed

lemma round_half_even_error: "\<bar>of_int (round_half_even q) - q\<bar> \<le> 1 / 2"
proof -
  define f where "f = \<lfloor>q\<rfloor>"
  have lo: "of_int f \<le> q" and hi: "q < of_int f + 1" unfolding f_def by linarith+
  have r: "round_half_even q =
      (if q - of_int f < 1 / 2 then f else if 1 / 2 < q - of_int f then f + 1
       else if even f then f else f + 1)"
    by (simp add: round_half_even_def f_def Let_def)
  show ?thesis unfolding r using lo hi by (auto simp: abs_le_iff)
qed

lemma float64_error: "\<bar>float64 x - x\<bar> \<le> \<bar>x\<bar> / 2 ^ 53"
proof (cases "x = 0")
  case True
  then show ?thesis by (simp add: float64_def)
next
  case False
  define e where "e = flog 2 \<bar>x\<bar>"
  define u :: real where "u = 2 powi (e - 52)"
  define r where "r = round_half_even (\<bar>x\<bar> / u)"
  have upos: "0 < u" unfolding u_def by simp
  from False have "0 < \<bar>x\<bar>" by simp
  from flog_bounds[OF order_refl this] have lo: "2 powi e \<le> \<bar>x\<bar>" by (simp add: e_def)
  have fx: "float64 x = sgn x * of_int r * u"
    using False by (simp add: float64_def Let_def e_def u_def r_def)
  have "\<bar>of_int r - \<bar>x\<bar> / u\<bar> \<le> 1 / 2" unfolding r_def by (rule round_half_even_error)
  then have "\<bar>of_int r - \<bar>x\<bar> / u\<bar> * u \<le> 1 / 2 * u" using upos by (simp only: mult_le_cancel_right_pos)
  moreover have "\<bar>of_int r - \<bar>x\<bar> / u\<bar> * u = \<bar>of_int r * u - \<bar>x\<bar>\<bar>"
  proof -
    have "(of_int r - \<bar>x\<bar> / u) * u = of_int r * u - \<bar>x\<bar>"
      using upos by (simp add: left_diff_distrib)
    then have "\<bar>of_int r * u - \<bar>x\<bar>\<bar> = \<bar>of_int r - \<bar>x\<bar> / u\<bar> * \<bar>u\<bar>"
      by (simp only: abs_mult[symmetric])
    also have "\<bar>u\<bar> = u" using upos by simp
    finally show ?thesis by simp
  qed
  ultimately have d: "\<bar>of_int r * u - \<bar>x\<bar>\<bar> \<le> u / 2" by simp
  have "u = 2 powi e / 2 ^ 52" unfolding u_def by (simp add: power_int_diff)
  then have "u / 2 = 2 powi e / 2 ^ 53" by simp
  also have "\<dots> \<le> \<bar>x\<bar> / 2 ^ 53" using lo by (simp add: divide_right_mono)
  finally have u2: "u / 2 \<le> \<bar>x\<bar> / 2 ^ 53" .
  have "\<bar>float64 x - x\<bar> = \<bar>of_int r * u - \<bar>x\<bar>\<bar>"
  proof (cases "0 < x")
    case True
    then show ?thesis by (simp add: fx)
  next
    case neg: False
    with False have "x < 0" by simp
    then have "float64 x - x = - (of_int r * u - \<bar>x\<bar>)" by (simp add: fx)
    then show ?thesis by (simp only: abs_minus_cancel)
  qed
  with d u2 show ?thesis by linarith
qed

lemma round_half_away_error: "\<bar>of_int (round_half_away q) - q\<bar> \<le> 1 / 2"
proof (cases "0 \<le> q")
  case True
  then have r: "round_half_away q = \<lfloor>q + 1 / 2\<rfloor>" by (simp add: round_half_away_def)
  have "of_int \<lfloor>q + 1 / 2\<rfloor> \<le> q + 1 / 2" "q + 1 / 2 < of_int \<lfloor>q + 1 / 2\<rfloor> + 1" by linarith+
  then show ?thesis unfolding r by linarith
next
  case False
  then have r: "round_half_away q = - \<lfloor>- q + 1 / 2\<rfloor>" by (simp add: round_half_away_def)
  have "of_int \<lfloor>- q + 1 / 2\<rfloor> \<le> - q + 1 / 2" "- q + 1 / 2 < of_int \<lfloor>- q + 1 / 2\<rfloor> + 1" by linarith+
  then show ?thesis unfolding r of_int_minus by linarith
qed

lemma float8_numeric_error: "\<bar>float8_numeric x - x\<bar> \<le> \<bar>x\<bar> / (2 * 10 ^ 14)"
proof (cases "x = 0")
  case True
  then show ?thesis by (simp add: float8_numeric_def)
next
  case False
  define e where "e = flog 10 \<bar>x\<bar>"
  define s :: real where "s = 10 powi (14 - e)"
  define r where "r = round_half_even (\<bar>x\<bar> * s)"
  have spos: "0 < s" unfolding s_def by simp
  from False have "0 < \<bar>x\<bar>" by simp
  from flog_bounds[of 10, OF _ this] have lo: "10 powi e \<le> \<bar>x\<bar>" by (simp add: e_def)
  have fx: "float8_numeric x = sgn x * of_int r / s"
    using False by (simp add: float8_numeric_def Let_def e_def s_def r_def)
  have "\<bar>of_int r - \<bar>x\<bar> * s\<bar> \<le> 1 / 2" unfolding r_def by (rule round_half_even_error)
  then have "\<bar>of_int r - \<bar>x\<bar> * s\<bar> / s \<le> 1 / 2 / s" using spos by (simp only: divide_right_mono less_imp_le)
  moreover have "\<bar>of_int r - \<bar>x\<bar> * s\<bar> / s = \<bar>of_int r / s - \<bar>x\<bar>\<bar>"
  proof -
    have "(of_int r - \<bar>x\<bar> * s) / s = of_int r / s - \<bar>x\<bar>"
      using spos by (simp add: diff_divide_distrib)
    then have "\<bar>of_int r / s - \<bar>x\<bar>\<bar> = \<bar>of_int r - \<bar>x\<bar> * s\<bar> / \<bar>s\<bar>"
      by (simp only: abs_divide[symmetric])
    also have "\<bar>s\<bar> = s" using spos by simp
    finally show ?thesis by simp
  qed
  ultimately have d: "\<bar>of_int r / s - \<bar>x\<bar>\<bar> \<le> 1 / 2 / s" by simp
  have "1 / s = 10 powi e / 10 ^ 14" unfolding s_def by (simp add: power_int_diff)
  then have "1 / 2 / s = 10 powi e / (2 * 10 ^ 14)" by simp
  also have "\<dots> \<le> \<bar>x\<bar> / (2 * 10 ^ 14)" using lo by (simp add: divide_right_mono)
  finally have u2: "1 / 2 / s \<le> \<bar>x\<bar> / (2 * 10 ^ 14)" .
  have "\<bar>float8_numeric x - x\<bar> = \<bar>of_int r / s - \<bar>x\<bar>\<bar>"
  proof (cases "0 < x")
    case True
    then show ?thesis by (simp add: fx)
  next
    case neg: False
    with False have "x < 0" by simp
    then have "float8_numeric x - x = - (of_int r / s - \<bar>x\<bar>)" by (simp add: fx)
    then show ?thesis by (simp only: abs_minus_cancel)
  qed
  with d u2 show ?thesis by linarith
qed

lemma cell_coord_nearest:
  "\<exists>m::int. cell_coord x = of_int m / 100
     \<and> \<bar>of_int m / 100 - float8_numeric x\<bar> \<le> 1 / 200
     \<and> \<bar>of_int m / 100 - x\<bar> \<le> 1 / 200 + \<bar>x\<bar> / (2 * 10 ^ 14)"
proof -
  define v where "v = float8_numeric x"
  define m where "m = round_half_away (v * 100)"
  have c: "cell_coord x = of_int m / 100" by (simp add: cell_coord_def sql_round2_def m_def v_def)
  have "\<bar>of_int m - v * 100\<bar> \<le> 1 / 2" unfolding m_def by (rule round_half_away_error)
  then have a: "\<bar>of_int m / 100 - v\<bar> \<le> 1 / 200" by linarith
  have "\<bar>v - x\<bar> \<le> \<bar>x\<bar> / (2 * 10 ^ 14)" unfolding v_def by (rule float8_numeric_error)
  with a have b: "\<bar>of_int m / 100 - x\<bar> \<le> 1 / 200 + \<bar>x\<bar> / (2 * 10 ^ 14)" by linarith
  from c a b show ?thesis unfolding v_def by blast
qed

lemma float_sum_snoc: "float_sum (xs @ [x]) = float64 (float_sum xs + x)"
  by (simp add: float_sum_def)

lemma float_sum_error:
  "\<bar>float_sum xs - sum_list xs\<bar> \<le> ((1 + 1 / 2 ^ 53) ^ length xs - 1) * sum_list (map abs xs)"
proof (induction xs rule: rev_induct)
  case Nil
  show ?case by (simp add: float_sum_def)
next
  case (snoc x xs)
  define u :: real where "u = 1 / 2 ^ 53"
  define p where "p = (1 + u) ^ length xs"
  define s where "s = float_sum xs"
  define S where "S = sum_list xs"
  define A where "A = sum_list (map abs xs)"
  define A' where "A' = A + \<bar>x\<bar>"
  define E where "E = (p - 1) * A"
  have u0: "0 \<le> u" unfolding u_def by simp
  have p1: "1 \<le> p" unfolding p_def using u0 by (intro one_le_power) simp
  have A0: "0 \<le> A" unfolding A_def by (rule sum_list_nonneg) auto
  have AA: "A \<le> A'" unfolding A'_def by simp
  have SA: "\<bar>S\<bar> \<le> A" unfolding S_def A_def by (rule sum_list_abs)
  have ih: "\<bar>s - S\<bar> \<le> E" using snoc unfolding s_def S_def E_def p_def u_def A_def .
  have "(p - 1) * A \<le> (p - 1) * A'" using AA p1 by (intro mult_left_mono) simp_all
  then have EA: "E \<le> (p - 1) * A'" unfolding E_def .
  have E0: "0 \<le> E" unfolding E_def using p1 A0 by simp
  define s' where "s' = float64 (s + x)"
  have "\<bar>s' - (s + x)\<bar> \<le> \<bar>s + x\<bar> / 2 ^ 53" unfolding s'_def by (rule float64_error)
  then have r: "\<bar>s' - (s + x)\<bar> \<le> u * \<bar>s + x\<bar>" unfolding u_def by simp
  have "\<bar>s + x\<bar> \<le> A' + E" using ih SA unfolding A'_def by linarith
  then have "u * \<bar>s + x\<bar> \<le> u * (A' + E)" using u0 by (rule mult_left_mono)
  with r have r': "\<bar>s' - (s + x)\<bar> \<le> u * (A' + E)" by linarith
  have "\<bar>s' - (S + x)\<bar> \<le> u * (A' + E) + E" using r' ih by linarith
  also have "\<dots> = u * A' + (1 + u) * E" by (simp add: algebra_simps)
  also have "\<dots> \<le> u * A' + (1 + u) * ((p - 1) * A')"
    using EA u0 by (intro add_left_mono mult_left_mono) simp_all
  also have "\<dots> = ((1 + u) * p - 1) * A'" by (simp add: algebra_simps)
  finally have "\<bar>s' - (S + x)\<bar> \<le> ((1 + u) * p - 1) * A'" .
  moreover have "float_sum (xs @ [x]) = s'" unfolding s'_def s_def by (rule float_sum_snoc)
  moreover have "sum_list (xs @ [x]) = S + x" unfolding S_def by simp
  moreover have "sum_list (map abs (xs @ [x])) = A'" unfolding A'_def A_def by simp
  moreover have "(1 + 1 / 2 ^ 53) ^ length (xs @ [x]) = (1 + u) * p" unfolding p_def u_def by simp
  ultimately show ?case by (simp only:)
qed

lemma float_mean_error:
  assumes "xs \<noteq> []"
  shows "\<bar>float_mean xs - mean xs\<bar>
      \<le> ((1 + 1 / 2 ^ 53) ^ (length xs + 1) - 1) * mean (map abs xs)"
proof -
  define u :: real where "u = 1 / 2 ^ 53"
  define p where "p = (1 + u) ^ length xs"
  define s where "s = float_sum xs"
  define S where "S = sum_list xs"
  define A where "A = sum_list (map abs xs)"
  define E where "E = (p - 1) * A"
  define n :: real where "n = of_nat (length xs)"
  have n0: "0 < n" unfolding n_def using assms by simp
  have u0: "0 \<le> u" unfolding u_def by simp
  have p1: "1 \<le> p" unfolding p_def using u0 by (intro one_le_power) simp
  have A0: "0 \<le> A" unfolding A_def by (rule sum_list_nonneg) auto
  have SA: "\<bar>S\<bar> \<le> A" unfolding S_def A_def by (rule sum_list_abs)
  have e: "\<bar>s - S\<bar> \<le> E" unfolding s_def S_def E_def p_def u_def A_def by (rule float_sum_error)
  define m' where "m' = float64 (s / n)"
  have "\<bar>m' - s / n\<bar> \<le> \<bar>s / n\<bar> / 2 ^ 53" unfolding m'_def by (rule float64_error)
  then have r: "\<bar>m' - s / n\<bar> \<le> u * (\<bar>s\<bar> / n)" using n0 unfolding u_def by simp
  have "\<bar>s\<bar> \<le> A + E" using e SA by linarith
  then have "\<bar>s\<bar> / n \<le> (A + E) / n" using n0 by (simp add: divide_right_mono)
  then have "u * (\<bar>s\<bar> / n) \<le> u * ((A + E) / n)" using u0 by (rule mult_left_mono)
  with r have r': "\<bar>m' - s / n\<bar> \<le> u * ((A + E) / n)" by linarith
  have "\<bar>s / n - S / n\<bar> = \<bar>s - S\<bar> / n" using n0 by (simp add: diff_divide_distrib[symmetric])
  also have "\<dots> \<le> E / n" using e n0 by (simp add: divide_right_mono)
  finally have d: "\<bar>s / n - S / n\<bar> \<le> E / n" .
  have "\<bar>m' - S / n\<bar> \<le> u * ((A + E) / n) + E / n" using r' d by linarith
  also have "\<dots> = ((1 + u) * p - 1) * (A / n)"
    unfolding E_def using n0 by (simp add: field_simps)
  finally have "\<bar>m' - S / n\<bar> \<le> ((1 + u) * p - 1) * (A / n)" .
  moreover have "float_mean xs = m'" unfolding m'_def s_def n_def float_mean_def ..
  moreover have "mean xs = S / n" unfolding mean_def S_def n_def ..
  moreover have "mean (map abs xs) = A / n" unfolding mean_def A_def n_def by simp
  moreover have "(1 + 1 / 2 ^ 53) ^ (length xs + 1) = (1 + u) * p" unfolding p_def u_def by simp
  ultimately show ?thesis by (simp only:)
qed

section \<open>Numbers as text\<close>

lemma digit_chars: "distinct ''0123456789''" "length ''0123456789'' = 10"
  by simp_all

lemma digit_char_inj:
  assumes "a < 10" "b < 10" "digit_char a = digit_char b"
  shows "a = b"
proof -
  have "a < length ''0123456789''" "b < length ''0123456789''" using assms by simp_all
  from nth_eq_iff_index_eq[OF digit_chars(1) this] assms(3) show ?thesis
    by (simp only: digit_char_def)
qed

lemma digit_char_digit: "d < 10 \<Longrightarrow> digit_char d \<in> set ''0123456789''"
  unfolding digit_char_def by (rule nth_mem) simp

lemma show_nat_digits: "show_nat n \<noteq> [] \<and> set (show_nat n) \<subseteq> set ''0123456789''"
proof (induction n rule: show_nat.induct)
  case (1 n)
  show ?case
  proof (cases "n < 10")
    case True
    then show ?thesis using digit_char_digit[of n] by (simp add: show_nat.simps[of n])
  next
    case False
    have "n mod 10 < 10" by simp
    from digit_char_digit[OF this] "1.IH"[OF False] False
    show ?thesis by (simp add: show_nat.simps[of n])
  qed
qed

lemma show_nat_length: "length (show_nat n) = 1 \<longleftrightarrow> n < 10"
proof (cases "n < 10")
  case True
  then show ?thesis by (simp add: show_nat.simps[of n])
next
  case False
  have "show_nat (n div 10) \<noteq> []" using show_nat_digits by blast
  then have "0 < length (show_nat (n div 10))" by simp
  with False show ?thesis by (simp add: show_nat.simps[of n])
qed

lemma show_nat_unfold:
  "n < 10 \<Longrightarrow> show_nat n = [digit_char n]"
  "\<not> n < 10 \<Longrightarrow> show_nat n = show_nat (n div 10) @ [digit_char (n mod 10)]"
  by (simp_all add: show_nat.simps[of n])

lemma show_nat_inj: "show_nat n = show_nat m \<Longrightarrow> n = m"
proof (induction n arbitrary: m rule: show_nat.induct)
  case (1 n)
  show ?case
  proof (cases "n < 10")
    case True
    then have "length (show_nat m) = 1" using "1.prems" show_nat_length[of n] by simp
    then have m: "m < 10" using show_nat_length[of m] by simp
    have "[digit_char n] = [digit_char m]"
      using "1.prems" unfolding show_nat_unfold(1)[OF True] show_nat_unfold(1)[OF m] .
    then have "digit_char n = digit_char m" by simp
    with True m show ?thesis by (rule digit_char_inj)
  next
    case False
    then have "length (show_nat m) \<noteq> 1" using "1.prems" show_nat_length[of n] by simp
    then have m: "\<not> m < 10" using show_nat_length[of m] by simp
    have "show_nat (n div 10) @ [digit_char (n mod 10)] = show_nat (m div 10) @ [digit_char (m mod 10)]"
      using "1.prems" unfolding show_nat_unfold(2)[OF False] show_nat_unfold(2)[OF m] .
    then have eq: "show_nat (n div 10) = show_nat (m div 10)" "digit_char (n mod 10) = digit_char (m mod 10)"
      by simp_all
    from "1.IH"[OF False eq(1)] have d: "n div 10 = m div 10" .
    have "n mod 10 < 10" "m mod 10 < 10" by simp_all
    from digit_char_inj[OF this eq(2)] have r: "n mod 10 = m mod 10" .
    have "n = n div 10 * 10 + n mod 10" by simp
    also have "\<dots> = m div 10 * 10 + m mod 10" by (simp only: d r)
    also have "\<dots> = m" by simp
    finally show ?thesis .
  qed
qed


lemma show_hundredths_inj:
  assumes "show_hundredths a = show_hundredths b"
  shows "a = b"
proof -
  define ta where "ta = [CHR ''.'', digit_char (a mod 100 div 10), digit_char (a mod 10)]"
  define tb where "tb = [CHR ''.'', digit_char (b mod 100 div 10), digit_char (b mod 10)]"
  have len: "length ta = length tb" by (simp add: ta_def tb_def)
  have "show_nat (a div 100) @ ta = show_nat (b div 100) @ tb"
    using assms by (simp add: show_hundredths_def ta_def tb_def)
  with append_eq_append_conv[OF disjI2, OF len]
  have p: "show_nat (a div 100) = show_nat (b div 100)" and s: "ta = tb"
    by blast+
  from p have h: "a div 100 = b div 100" by (rule show_nat_inj)
  from s have d1: "digit_char (a mod 100 div 10) = digit_char (b mod 100 div 10)"
    and d0: "digit_char (a mod 10) = digit_char (b mod 10)" by (simp_all add: ta_def tb_def)
  have "a mod 100 div 10 < 10" "b mod 100 div 10 < 10" by simp_all
  from digit_char_inj[OF this d1] have t: "a mod 100 div 10 = b mod 100 div 10" .
  have "a mod 10 < 10" "b mod 10 < 10" by simp_all
  from digit_char_inj[OF this d0] have u: "a mod 10 = b mod 10" .
  have dec: "n mod 100 = n mod 100 div 10 * 10 + n mod 10" for n :: nat
  proof -
    have "n mod 100 mod 10 = n mod 10" by (simp add: mod_mod_cancel)
    moreover have "n mod 100 = n mod 100 div 10 * 10 + n mod 100 mod 10" by simp
    ultimately show ?thesis by (simp only:)
  qed
  have "a mod 100 = a mod 100 div 10 * 10 + a mod 10" by (rule dec)
  also have "\<dots> = b mod 100 div 10 * 10 + b mod 10" by (simp only: t u)
  also have "\<dots> = b mod 100" by (rule dec[symmetric])
  finally have m: "a mod 100 = b mod 100" .
  have "a = a div 100 * 100 + a mod 100" by simp
  also have "\<dots> = b div 100 * 100 + b mod 100" by (simp only: h m)
  also have "\<dots> = b" by simp
  finally show ?thesis .
qed

lemma show_hundredths_chars:
  "show_hundredths n \<noteq> [] \<and> hd (show_hundredths n) \<in> set ''0123456789''
   \<and> set (show_hundredths n) \<subseteq> set ''0123456789.''"
proof (intro conjI)
  define D where "D = set ''0123456789''"
  define E where "E = set ''0123456789.''"
  have DE: "D \<subseteq> E" and dot: "CHR ''.'' \<in> E" unfolding D_def E_def by simp_all
  have ne: "show_nat (n div 100) \<noteq> []" and d: "set (show_nat (n div 100)) \<subseteq> D"
    unfolding D_def using show_nat_digits by blast+
  have "n mod 100 div 10 < 10" "n mod 10 < 10" by simp_all
  note t = this[THEN digit_char_digit, folded D_def]
  have h: "hd (show_hundredths n) = hd (show_nat (n div 100))"
    unfolding show_hundredths_def using ne by (rule hd_append2)
  have "hd (show_nat (n div 100)) \<in> set (show_nat (n div 100))" using ne by (rule hd_in_set)
  with d have "hd (show_hundredths n) \<in> D" unfolding h by (rule subsetD)
  then show "hd (show_hundredths n) \<in> set ''0123456789''" unfolding D_def .
  have "show_hundredths n
      = show_nat (n div 100) @ [CHR ''.'', digit_char (n mod 100 div 10), digit_char (n mod 10)]"
    by (simp add: show_hundredths_def)
  then have "set (show_hundredths n)
      = set (show_nat (n div 100)) \<union> set [CHR ''.'', digit_char (n mod 100 div 10), digit_char (n mod 10)]"
    by (simp only: set_append)
  moreover have "set [CHR ''.'', digit_char (n mod 100 div 10), digit_char (n mod 10)] \<subseteq> E"
    using t DE dot by (simp only: set_simps) blast
  moreover have "set (show_nat (n div 100)) \<subseteq> E" using d DE by (rule order_trans)
  ultimately have "set (show_hundredths n) \<subseteq> E" by (simp only: Un_subset_iff)
  then show "set (show_hundredths n) \<subseteq> set ''0123456789.''" unfolding E_def .
  show "show_hundredths n \<noteq> []" unfolding show_hundredths_def using ne by simp
qed

lemma round_half_away_int: "round_half_away (of_int m) = m"
proof -
  have "\<lfloor>of_int m + 1 / 2 :: real\<rfloor> = m" by (simp add: floor_eq_iff)
  moreover have "\<lfloor>- of_int m + 1 / 2 :: real\<rfloor> = - m"
    using floor_eq_iff[of "- of_int m + 1 / 2 :: real" "- m"] by simp
  ultimately show ?thesis by (simp add: round_half_away_def)
qed

lemma numeric2_text_hundredths:
  "numeric2_text (of_int m / 100) = (if m < 0 then ''-'' else '''') @ show_hundredths (nat \<bar>m\<bar>)"
  by (simp add: numeric2_text_def round_half_away_int Let_def)

lemma numeric2_text_inj:
  assumes "numeric2_text (of_int m / 100) = numeric2_text (of_int k / 100)"
  shows "m = k"
proof -
  have nodash: "''-'' @ s \<noteq> show_hundredths n" for n s
  proof
    assume "''-'' @ s = show_hundredths n"
    then have "hd (show_hundredths n) = CHR ''-''" by (metis append_Cons list.sel(1))
    with show_hundredths_chars[of n] show False by simp
  qed
  consider "m < 0" "k < 0" | "m < 0" "0 \<le> k" | "0 \<le> m" "k < 0" | "0 \<le> m" "0 \<le> k" by linarith
  then show ?thesis
  proof cases
    case 1
    with assms have "show_hundredths (nat \<bar>m\<bar>) = show_hundredths (nat \<bar>k\<bar>)"
      by (simp add: numeric2_text_hundredths)
    then have "nat \<bar>m\<bar> = nat \<bar>k\<bar>" by (rule show_hundredths_inj)
    with 1 show ?thesis by simp
  next
    case 2
    with assms have "''-'' @ show_hundredths (nat \<bar>m\<bar>) = show_hundredths (nat \<bar>k\<bar>)"
      by (simp add: numeric2_text_hundredths)
    with nodash show ?thesis by blast
  next
    case 3
    with assms have "''-'' @ show_hundredths (nat \<bar>k\<bar>) = show_hundredths (nat \<bar>m\<bar>)"
      by (simp add: numeric2_text_hundredths)
    with nodash show ?thesis by blast
  next
    case 4
    with assms have "show_hundredths (nat \<bar>m\<bar>) = show_hundredths (nat \<bar>k\<bar>)"
      by (simp add: numeric2_text_hundredths)
    then have "nat \<bar>m\<bar> = nat \<bar>k\<bar>" by (rule show_hundredths_inj)
    with 4 show ?thesis by simp
  qed
qed

lemma numeric2_text_no_comma: "CHR '','' \<notin> set (numeric2_text (of_int m / 100))"
proof -
  have "CHR '','' \<notin> set ''0123456789.''" by simp
  with show_hundredths_chars[of "nat \<bar>m\<bar>"] have "CHR '','' \<notin> set (show_hundredths (nat \<bar>m\<bar>))"
    by blast
  then show ?thesis by (simp add: numeric2_text_hundredths)
qed

lemma split_at_separator:
  assumes "c \<notin> set xs" "c \<notin> set xs'" "xs @ c # ys = xs' @ c # ys'"
  shows "xs = xs' \<and> ys = ys'"
proof -
  have "takeWhile (\<lambda>x. x \<noteq> c) (xs @ c # ys) = xs"
    using assms(1) by (auto simp: takeWhile_tail)
  moreover have "takeWhile (\<lambda>x. x \<noteq> c) (xs' @ c # ys') = xs'"
    using assms(2) by (auto simp: takeWhile_tail)
  ultimately have "xs = xs'" using assms(3) by simp
  with assms(3) show ?thesis by simp
qed

lemma cell_coord_hundredths: "\<exists>m::int. cell_coord x = of_int m / 100"
  by (simp add: cell_coord_def sql_round2_def)

section \<open>The aggregation scan\<close>

lemma agg_trans_key: "g_key (agg_trans r g) = g_key g"
  by (simp add: agg_trans_def)

lemma agg_step_map_keys:
  "row_key r \<in> g_key ` set gs \<Longrightarrow> map g_key (agg_step gs r) = map g_key gs"
  by (induction gs) (auto simp: agg_step_def agg_trans_key)

lemma agg_step_keys: "g_key ` set (agg_step gs r) = insert (row_key r) (g_key ` set gs)"
proof (cases "row_key r \<in> g_key ` set gs")
  case True
  then have "set (map g_key (agg_step gs r)) = set (map g_key gs)"
    by (simp only: agg_step_map_keys)
  with True show ?thesis by auto
next
  case False
  then show ?thesis by (simp add: agg_step_def agg_init_def)
qed

lemma agg_step_distinct:
  "distinct (map g_key gs) \<Longrightarrow> distinct (map g_key (agg_step gs r))"
proof (cases "row_key r \<in> g_key ` set gs")
  case True
  assume "distinct (map g_key gs)"
  with True show ?thesis by (simp add: agg_step_map_keys)
next
  case False
  assume "distinct (map g_key gs)"
  with False show ?thesis by (simp add: agg_step_def agg_init_def)
qed

lemma agg_ok_trans:
  assumes "agg_ok rs g" and "g_key g = row_key r"
  shows "agg_ok (rs @ [r]) (agg_trans r g)"
  using assms
  by (auto simp: agg_ok_def members_def agg_trans_def Let_def cc0_def float_sum_snoc
      split: option.splits)

lemma agg_ok_other:
  assumes "agg_ok rs g" and "g_key g \<noteq> row_key r"
  shows "agg_ok (rs @ [r]) g"
  using assms by (auto simp: agg_ok_def members_def Let_def)

lemma agg_ok_init:
  assumes "row_key r \<notin> row_key ` set rs"
  shows "agg_ok (rs @ [r]) (agg_init r)"
proof -
  have "\<forall>x \<in> set rs. row_key x \<noteq> row_key r"
    using assms by (metis image_eqI)
  then have "filter (\<lambda>x. row_key x = row_key r) rs = []"
    by (simp add: filter_empty_conv)
  then show ?thesis
    by (simp add: agg_ok_def members_def agg_init_def Let_def cc0_def float_sum_def
        split: option.splits)
qed

lemma agg_step_ok:
  assumes ok: "\<forall>g \<in> set gs. agg_ok rs g" and keys: "g_key ` set gs = row_key ` set rs"
  shows "\<forall>g \<in> set (agg_step gs r). agg_ok (rs @ [r]) g"
proof
  fix g' assume mem: "g' \<in> set (agg_step gs r)"
  show "agg_ok (rs @ [r]) g'"
  proof (cases "row_key r \<in> g_key ` set gs")
    case True
    with mem obtain g where g: "g \<in> set gs"
      and g': "g' = (if g_key g = row_key r then agg_trans r g else g)"
      by (auto simp: agg_step_def)
    from g ok have "agg_ok rs g" by blast
    then show ?thesis
      using g' by (auto intro: agg_ok_trans agg_ok_other)
  next
    case False
    with mem have "g' \<in> set gs \<or> g' = agg_init r"
      by (auto simp: agg_step_def)
    then show ?thesis
    proof
      assume g: "g' \<in> set gs"
      with False have "g_key g' \<noteq> row_key r" by (metis image_eqI)
      moreover from g ok have "agg_ok rs g'" by blast
      ultimately show ?thesis by (rule agg_ok_other[rotated])
    next
      assume "g' = agg_init r"
      moreover from False keys have "row_key r \<notin> row_key ` set rs" by simp
      ultimately show ?thesis by (simp add: agg_ok_init)
    qed
  qed
qed

lemma agg_fold_inv:
  "distinct (map g_key (foldl agg_step [] rs))
   \<and> g_key ` set (foldl agg_step [] rs) = row_key ` set rs
   \<and> (\<forall>g \<in> set (foldl agg_step [] rs). agg_ok rs g)"
proof (induction rs rule: rev_induct)
  case Nil
  show ?case by simp
next
  case (snoc r rs)
  let ?gs = "foldl agg_step [] rs"
  from snoc have d: "distinct (map g_key ?gs)"
    and k: "g_key ` set ?gs = row_key ` set rs"
    and ok: "\<forall>g \<in> set ?gs. agg_ok rs g" by blast+
  have "distinct (map g_key (agg_step ?gs r))" using d by (rule agg_step_distinct)
  moreover have "g_key ` set (agg_step ?gs r) = row_key ` set (rs @ [r])"
    using k by (simp add: agg_step_keys)
  moreover have "\<forall>g \<in> set (agg_step ?gs r). agg_ok (rs @ [r]) g"
    using ok k by (rule agg_step_ok)
  ultimately show ?case by simp
qed

section \<open>Grid cells\<close>

lemma cell_key_final: "cell_key (agg_final g) = g_key g"
  by (simp add: cell_key_def agg_final_def)

lemma grid_cells_distinct: "distinct (map cell_key (grid_cells uid rows))"
proof -
  have "map cell_key (grid_cells uid rows) = map g_key (foldl agg_step [] (geocoded uid rows))"
    by (simp add: grid_cells_def cell_key_final)
  then show ?thesis using agg_fold_inv[of "geocoded uid rows"] by simp
qed

lemma grid_cells_distinct_cells: "distinct (grid_cells uid rows)"
  using grid_cells_distinct[of uid rows] by (simp add: distinct_map)

lemma grid_cells_keys: "cell_key ` set (grid_cells uid rows) = row_key ` set (geocoded uid rows)"
proof -
  have "cell_key ` set (grid_cells uid rows) = g_key ` set (foldl agg_step [] (geocoded uid rows))"
    by (simp add: grid_cells_def image_image cell_key_final)
  then show ?thesis using agg_fold_inv[of "geocoded uid rows"] by simp
qed

lemma grid_cell_contents:
  assumes "c \<in> set (grid_cells uid rows)"
  shows "cell_rows uid rows c \<noteq> []
     \<and> count c = length (cell_rows uid rows c)
     \<and> center_lat c = float_mean (map (\<lambda>r. the (lat r)) (cell_rows uid rows c))
     \<and> center_lng c = float_mean (map (\<lambda>r. the (lng r)) (cell_rows uid rows c))
     \<and> total_customers c = sum_list (map cc0 (cell_rows uid rows c))"
proof -
  from assms obtain g where g: "g \<in> set (foldl agg_step [] (geocoded uid rows))"
    and c: "c = agg_final g"
    by (auto simp: grid_cells_def)
  from g have "agg_ok (geocoded uid rows) g"
    using agg_fold_inv[of "geocoded uid rows"] by blast
  then show ?thesis
    unfolding c cell_rows_def cell_key_final
    by (simp add: agg_ok_def Let_def agg_final_def float_mean_def)
qed

lemma grid_cell_center_error:
  assumes "c \<in> set (grid_cells uid rows)"
  shows "\<bar>center_lat c - mean (map (\<lambda>r. the (lat r)) (cell_rows uid rows c))\<bar>
           \<le> ((1 + 1 / 2 ^ 53) ^ (count c + 1) - 1)
               * mean (map (\<lambda>r. \<bar>the (lat r)\<bar>) (cell_rows uid rows c))
     \<and> \<bar>center_lng c - mean (map (\<lambda>r. the (lng r)) (cell_rows uid rows c))\<bar>
           \<le> ((1 + 1 / 2 ^ 53) ^ (count c + 1) - 1)
               * mean (map (\<lambda>r. \<bar>the (lng r)\<bar>) (cell_rows uid rows c))"
proof -
  note f = grid_cell_contents[OF assms]
  let ?ms = "cell_rows uid rows c"
  from f have ne: "?ms \<noteq> []" and n: "count c = length ?ms" by blast+
  have a: "map abs (map (\<lambda>r. the (lat r)) ?ms) = map (\<lambda>r. \<bar>the (lat r)\<bar>) ?ms"
    and b: "map abs (map (\<lambda>r. the (lng r)) ?ms) = map (\<lambda>r. \<bar>the (lng r)\<bar>) ?ms"
    by (simp_all add: comp_def)
  from ne have "map (\<lambda>r. the (lat r)) ?ms \<noteq> []" by simp
  from float_mean_error[OF this] have 1:
    "\<bar>center_lat c - mean (map (\<lambda>r. the (lat r)) ?ms)\<bar>
       \<le> ((1 + 1 / 2 ^ 53) ^ (count c + 1) - 1) * mean (map (\<lambda>r. \<bar>the (lat r)\<bar>) ?ms)"
    using f by (simp only: a n length_map)
  from ne have "map (\<lambda>r. the (lng r)) ?ms \<noteq> []" by simp
  from float_mean_error[OF this] have 2:
    "\<bar>center_lng c - mean (map (\<lambda>r. the (lng r)) ?ms)\<bar>
       \<le> ((1 + 1 / 2 ^ 53) ^ (count c + 1) - 1) * mean (map (\<lambda>r. \<bar>the (lng r)\<bar>) ?ms)"
    using f by (simp only: b n length_map)
  from 1 2 show ?thesis ..
qed

lemma grid_cell_count_pos: "c \<in> set (grid_cells uid rows) \<Longrightarrow> 1 \<le> count c"
  using grid_cell_contents[of c uid rows] by (cases "cell_rows uid rows c") auto

lemma grid_cell_unique:
  assumes "c \<in> set (grid_cells uid rows)" "c' \<in> set (grid_cells uid rows)"
    and "cell_key c = cell_key c'"
  shows "c = c'"
  using assms grid_cells_distinct[of uid rows]
  by (meson distinct_map inj_onD)

lemma mem_cell_rows:
  "r \<in> set (cell_rows uid rows c) \<longleftrightarrow> r \<in> set (geocoded uid rows) \<and> row_key r = cell_key c"
  by (auto simp: cell_rows_def members_def)

lemma row_has_cell:
  assumes "r \<in> set (geocoded uid rows)"
  shows "\<exists>!c. c \<in> set (grid_cells uid rows) \<and> r \<in> set (cell_rows uid rows c)"
proof -
  from assms have "row_key r \<in> cell_key ` set (grid_cells uid rows)"
    by (simp add: grid_cells_keys)
  then obtain c where c: "c \<in> set (grid_cells uid rows)" "cell_key c = row_key r" by auto
  show ?thesis
  proof (rule ex1I[of _ c])
    show "c \<in> set (grid_cells uid rows) \<and> r \<in> set (cell_rows uid rows c)"
      using c assms by (simp add: mem_cell_rows)
  next
    fix c' assume "c' \<in> set (grid_cells uid rows) \<and> r \<in> set (cell_rows uid rows c')"
    then show "c' = c" using c by (auto simp: mem_cell_rows intro: grid_cell_unique)
  qed
qed

lemma same_cell_iff:
  assumes "c1 \<in> set (grid_cells uid rows)" "c2 \<in> set (grid_cells uid rows)"
    and "r1 \<in> set (cell_rows uid rows c1)" "r2 \<in> set (cell_rows uid rows c2)"
  shows "c1 = c2 \<longleftrightarrow>
      cell_coord (the (lat r1)) = cell_coord (the (lat r2))
      \<and> cell_coord (the (lng r1)) = cell_coord (the (lng r2))"
proof -
  have "c1 = c2 \<longleftrightarrow> cell_key c1 = cell_key c2"
    using assms(1,2) grid_cell_unique by blast
  also have "\<dots> \<longleftrightarrow> row_key r1 = row_key r2"
    using assms(3,4) by (simp add: mem_cell_rows)
  finally show ?thesis by (simp add: row_key_def)
qed

lemma cell_id_inj:
  assumes c: "c \<in> set (grid_cells uid rows)" and c': "c' \<in> set (grid_cells uid rows)"
    and eq: "cell_id c = cell_id c'"
  shows "c = c'"
proof -
  have key: "\<exists>m k :: int. cell_lat c = of_int m / 100 \<and> cell_lng c = of_int k / 100"
    if "c \<in> set (grid_cells uid rows)" for c
  proof -
    from that have "cell_key c \<in> row_key ` set (geocoded uid rows)"
      using grid_cells_keys[of uid rows] by blast
    then obtain r where "cell_key c = row_key r" by blast
    then have "cell_lat c = cell_coord (the (lat r))" "cell_lng c = cell_coord (the (lng r))"
      by (simp_all add: cell_key_def row_key_def)
    then show ?thesis using cell_coord_hundredths by metis
  qed
  from key[OF c] obtain m k :: int
    where mk: "cell_lat c = of_int m / 100" "cell_lng c = of_int k / 100" by blast
  from key[OF c'] obtain m' k' :: int
    where mk': "cell_lat c' = of_int m' / 100" "cell_lng c' = of_int k' / 100" by blast
  from eq have "numeric2_text (of_int m / 100) @ CHR '','' # numeric2_text (of_int k / 100)
      = numeric2_text (of_int m' / 100) @ CHR '','' # numeric2_text (of_int k' / 100)"
    by (simp add: cell_id_def mk mk')
  from split_at_separator[OF numeric2_text_no_comma numeric2_text_no_comma this]
  have "m = m'" "k = k'" by (auto dest: numeric2_text_inj)
  then have "cell_key c = cell_key c'" by (simp add: cell_key_def mk mk')
  with c c' show ?thesis by (rule grid_cell_unique)
qed

section \<open>\<open>ORDER BY\<close> and \<open>LIMIT\<close>\<close>

lemma order_by_set: "set (order_by key arrival xs) = set xs"
  by (simp add: order_by_def)

lemma order_by_length: "length (order_by key arrival xs) = length xs"
  by (simp add: order_by_def)

lemma order_by_distinct: "distinct (order_by key arrival xs) = distinct xs"
  by (simp add: order_by_def)

lemma order_by_sorted: "sorted (map key (order_by key arrival xs))"
  by (simp add: order_by_def)

lemma order_by_complete:
  assumes d: "distinct xs" and dy: "distinct ys" and sy: "set ys = set xs"
    and s: "sorted (map key ys)"
  shows "\<exists>arrival. order_by key arrival xs = ys"
proof -
  define arrival where "arrival x = (THE i. i < length ys \<and> ys ! i = x)" for x
  have at: "arrival (ys ! i) = i" if "i < length ys" for i
    unfolding arrival_def
  proof (rule the_equality)
    show "i < length ys \<and> ys ! i = ys ! i" using that by simp
  next
    fix j assume "j < length ys \<and> ys ! j = ys ! i"
    then have "j < length ys" "ys ! j = ys ! i" by simp_all
    with that dy show "j = i" using nth_eq_iff_index_eq by blast
  qed
  have idx: "map arrival ys = [0..<length ys]"
    by (rule nth_equalityI) (simp_all add: at)
  have inj: "inj_on arrival (set xs \<union> set ys)"
  proof (rule inj_onI)
    fix a b assume "a \<in> set xs \<union> set ys" "b \<in> set xs \<union> set ys" and e: "arrival a = arrival b"
    then obtain i j where "i < length ys" "a = ys ! i" "j < length ys" "b = ys ! j"
      unfolding sy[symmetric] by (auto simp: in_set_conv_nth)
    with e at show "a = b" by simp
  qed
  have "sort_key arrival xs = ys"
  proof (rule map_sorted_distinct_set_unique[OF _ _ _ _ _ _])
    show "inj_on arrival (set (sort_key arrival xs) \<union> set ys)" using inj by simp
    show "sorted (map arrival (sort_key arrival xs))" by simp
    show "distinct (map arrival (sort_key arrival xs))"
      using d inj by (simp add: distinct_map inj_on_Un)
    show "sorted (map arrival ys)" unfolding idx by simp
    show "distinct (map arrival ys)" unfolding idx by simp
    show "set (sort_key arrival xs) = set ys" using sy by simp
  qed
  moreover have "sort_key key ys = ys" using s by (rule sort_key_id_if_sorted)
  ultimately have "order_by key arrival xs = ys" by (simp add: order_by_def)
  then show ?thesis by blast
qed

lemma take_sorted_least:
  assumes "sorted (map key xs)"
    and "x \<in> set xs - set (take n xs)" and "y \<in> set (take n xs)"
  shows "key y \<le> key x"
proof -
  have "set xs = set (take n xs) \<union> set (drop n xs)" by (metis append_take_drop_id set_append)
  with assms(2) have x: "x \<in> set (drop n xs)" by blast
  have "sorted (map key (take n xs) @ map key (drop n xs))"
    using assms(1) by (metis append_take_drop_id map_append)
  then have "\<forall>a \<in> set (map key (take n xs)). \<forall>b \<in> set (map key (drop n xs)). a \<le> b"
    by (simp add: sorted_append)
  with x assms(3) show ?thesis by simp
qed

lemma take3_order_by_count:
  assumes "distinct cells"
  shows "top3_by_count cells (take 3 (order_by (\<lambda>c. - int (count c)) arrival cells))"
proof -
  let ?k = "\<lambda>c. - int (count c)"
  let ?xs = "order_by ?k arrival cells"
  have s: "sorted (map ?k ?xs)" by (rule order_by_sorted)
  have d: "distinct ?xs" using assms by (simp add: order_by_distinct)
  have set: "set ?xs = set cells" by (rule order_by_set)
  have 1: "distinct (take 3 ?xs)" using d by (rule distinct_take)
  have 2: "set (take 3 ?xs) \<subseteq> set cells" using set_take_subset[of 3 ?xs] set by simp
  have 3: "length (take 3 ?xs) = min 3 (length cells)" by (simp add: order_by_length min.commute)
  have "sorted (take 3 (map ?k ?xs))" using s by (rule sorted_wrt_take)
  then have 4: "sorted (map ?k (take 3 ?xs))" by (simp only: take_map)
  have 5: "\<forall>c \<in> set cells - set (take 3 ?xs). \<forall>d \<in> set (take 3 ?xs). count c \<le> count d"
  proof (intro ballI)
    fix c d assume "c \<in> set cells - set (take 3 ?xs)" and dm: "d \<in> set (take 3 ?xs)"
    then have "c \<in> set ?xs - set (take 3 ?xs)" by (simp only: set)
    from take_sorted_least[OF s this dm] show "count c \<le> count d" by simp
  qed
  from 1 2 3 4 5 show ?thesis unfolding top3_by_count_def by blast
qed

lemma denseAreasResult_top3:
  "top3_by_count (grid_cells uid rows) (denseAreasResult eng uid rows)"
  unfolding denseAreasResult_def by (rule take3_order_by_count[OF grid_cells_distinct_cells])

lemma dense_cells_top3: "top3_by_count (grid_cells uid rows) (dense_cells eng uid rows)"
  unfolding dense_cells_def by (rule take3_order_by_count[OF grid_cells_distinct_cells])

lemma top3_empty: "top3_by_count cells ds \<Longrightarrow> ds = [] \<longleftrightarrow> cells = []"
  by (auto simp: top3_by_count_def min_def split: if_splits)


lemma dense_results_empty:
  "denseAreasResult eng uid rows = [] \<longleftrightarrow> dense_cells eng uid rows = []"
  using top3_empty[OF denseAreasResult_top3[of uid rows eng]]
    top3_empty[OF dense_cells_top3[of uid rows eng]] by simp

section \<open>The whitespace query\<close>

lemma candidate_facts:
  assumes "(c, d) \<in> set (whitespace_candidates eng uid rows)"
  shows "dense_cells eng uid rows \<noteq> [] \<and> c \<in> set (grid_cells uid rows) \<and> count c \<le> 1
     \<and> \<not> is_dense (dense_cells eng uid rows) c
     \<and> d = min_list (map (distance_km (st_distance eng) c) (dense_cells eng uid rows)) \<and> d \<le> 3"
  using assms
  by (auto simp: whitespace_candidates_def Let_def all_cells_def split: if_splits)


lemma query_subset: "set (whiteSpaceQuery eng uid rows) \<subseteq> set (whitespace_candidates eng uid rows)"
proof -
  let ?xs = "order_by snd (\<lambda>row. ws_arrival eng (fst row)) (whitespace_candidates eng uid rows)"
  have "set (take 3 ?xs) \<subseteq> set ?xs" by (rule set_take_subset)
  then show ?thesis by (simp add: whiteSpaceQuery_def order_by_set)
qed

lemma query_sorted: "sorted (map snd (whiteSpaceQuery eng uid rows))"
proof -
  let ?xs = "order_by snd (\<lambda>row. ws_arrival eng (fst row)) (whitespace_candidates eng uid rows)"
  have "sorted (map snd ?xs)" by (rule order_by_sorted)
  then have "sorted (take 3 (map snd ?xs))" by (rule sorted_wrt_take)
  then show ?thesis by (simp add: whiteSpaceQuery_def take_map)
qed



lemma not_dense_key: "\<not> is_dense dc c \<Longrightarrow> cell_key c \<notin> cell_key ` set dc"
  by (auto simp: is_dense_def cell_key_def)

lemma nearest_is_Min:
  "dc \<noteq> [] \<Longrightarrow> min_list (map (distance_km sd c) dc) = Min (distance_km sd c ` set dc)"
  by (simp add: min_list_Min)

lemma zip_map_same: "zip xs (map f xs) = map (\<lambda>x. (x, f x)) xs"
  by (induction xs) auto

lemma map2_labels: "map2 f xs (map g xs) = map (\<lambda>x. f x (g x)) xs"
  by (simp add: zip_map_same)

lemma query_empty: "dense_cells eng uid rows = [] \<Longrightarrow> whiteSpaceQuery eng uid rows = []"
  by (simp add: whiteSpaceQuery_def whitespace_candidates_def order_by_def)

lemma getLabels_labels:
  "fst (getLabels mb cache ps)
     = map (\<lambda>p. case cache (cache_key p) of Some l \<Rightarrow> l | None \<Rightarrow> fetched_label mb p) ps"
  by (simp add: getLabels_def Let_def)

lemma insights_topDenseAreas:
  "\<exists>lbl. topDenseAreas (fst (insights eng mb uid rows))
      = map (\<lambda>c. dense_area c (lbl c)) (denseAreasResult eng uid rows)"
proof -
  let ?D = "denseAreasResult eng uid rows"
  obtain l1 c1 k1 where g1: "getLabels mb Map.empty (map cell_center ?D) = (l1, c1, k1)"
    by (metis prod_cases3)
  let ?L = "\<lambda>c. case Map.empty (cache_key (cell_center c)) of Some l \<Rightarrow> l
                  | None \<Rightarrow> fetched_label mb (cell_center c)"
  have l1: "l1 = map ?L ?D"
    using getLabels_labels[of mb Map.empty "map cell_center ?D"] g1 by (simp add: comp_def)
  have "topDenseAreas (fst (insights eng mb uid rows)) = map2 dense_area ?D l1"
    using g1 by (simp add: insights_def Let_def split: prod.splits)
  also have "\<dots> = map (\<lambda>c. dense_area c (?L c)) ?D"
    unfolding l1 by (rule map2_labels)
  finally show ?thesis by (rule exI[of _ ?L])
qed

lemma insights_whiteSpaceAreas:
  "\<exists>lbl. whiteSpaceAreas (fst (insights eng mb uid rows))
      = map (\<lambda>row. whitespace_area_of row (lbl row)) (whiteSpaceQuery eng uid rows)"
proof -
  let ?D = "denseAreasResult eng uid rows"
  obtain l1 c1 k1 where g1: "getLabels mb Map.empty (map cell_center ?D) = (l1, c1, k1)"
    by (metis prod_cases3)
  let ?ws = "whiteSpaceQuery eng uid rows"
  obtain l2 c2 k2 where g2: "getLabels mb k1 (map (\<lambda>row. cell_center (fst row)) ?ws) = (l2, c2, k2)"
    by (metis prod_cases3)
  let ?L = "\<lambda>row. case k1 (cache_key (cell_center (fst row))) of Some l \<Rightarrow> l
                  | None \<Rightarrow> fetched_label mb (cell_center (fst row))"
  have l2: "l2 = map ?L ?ws"
    using getLabels_labels[of mb k1 "map (\<lambda>row. cell_center (fst row)) ?ws"] g2
    by (simp add: comp_def)
  have l1: "length l1 = length ?D"
    using getLabels_labels[of mb Map.empty "map cell_center ?D"] g1 by simp
  have top: "map2 dense_area ?D l1 = [] \<longleftrightarrow> ?D = []"
    using l1 by (cases ?D; cases l1) auto
  show ?thesis
  proof (cases "?D = []")
    case True
    then have "dense_cells eng uid rows = []" by (simp only: dense_results_empty)
    then have "?ws = []" by (rule query_empty)
    with True show ?thesis
      using g1 by (simp add: insights_def Let_def getLabels_def)
  next
    case False
    have "whiteSpaceAreas (fst (insights eng mb uid rows)) = map2 whitespace_area_of ?ws l2"
      using False top g1 g2 by (simp add: insights_def Let_def)
    also have "\<dots> = map (\<lambda>row. whitespace_area_of row (?L row)) ?ws"
      unfolding l2 by (rule map2_labels)
    finally show ?thesis by (rule exI[of _ ?L])
  qed
qed

section \<open>Evaluating the sample data\<close>

lemmas float_eval = float64_def flog_def round_half_even_def Let_def ndigits.simps

lemmas num_eval = cell_coord_def sql_round2_def float8_numeric_def flog_def round_half_away_def
  round_half_even_def Let_def ndigits.simps

lemmas text_eval = numeric2_text_def toFixed2_def show_hundredths_def digit_char_def
  show_nat.simps round_half_away_def Let_def

lemma geocoded_row_fields:
  "upload_id (geocoded_row i lt lg c) = 7"
  "geocode_status (geocoded_row i lt lg c) = Success"
  "lat (geocoded_row i lt lg c) = Some lt"
  "lng (geocoded_row i lt lg c) = Some lg"
  "customer_count (geocoded_row i lt lg c) = c"
  "row_key (geocoded_row i lt lg c) = (cell_coord lt, cell_coord lg)"
  by (simp_all add: geocoded_row_def row_key_def)

lemma sample_engine_fields:
  "st_distance sample_engine = taxicab_metres" "dense_arrival sample_engine = (\<lambda>c. 0)"
  "ws_dense_arrival sample_engine = (\<lambda>c. 0)" "ws_arrival sample_engine = (\<lambda>c. 0)"
  by (simp_all add: sample_engine_def)

lemma order_by_arrival_0: "order_by key (\<lambda>x. 0) xs = sort_key key xs"
proof -
  have "sorted (map (\<lambda>x. 0 :: nat) xs)" by (induction xs) auto
  then have "sort_key (\<lambda>x. 0 :: nat) xs = xs" by (rule sort_key_id_if_sorted)
  then show ?thesis by (simp add: order_by_def)
qed

lemma sample_coords:
  "cell_coord 10 = 10"
  "cell_coord 20 = 20"
  "cell_coord (21 / 2) = 21 / 2"
  "cell_coord (41 / 2) = 41 / 2"
  "cell_coord 11 = 11"
  "cell_coord 21 = 21"
  "cell_coord (641 / 64) = 501 / 50"
  "cell_coord (81951 / 4096) = 2001 / 100"
  "cell_coord (321 / 32) = 1003 / 100"
  "cell_coord (20489 / 1024) = 2001 / 100"
  "cell_coord (40995 / 4096) = 1001 / 100"
  by (simp_all add: num_eval)

lemma sample_doubles:
  "float64 10 = 10"
  "float64 20 = 20"
  "float64 40 = 40"
  "float64 21 = 21"
  "float64 41 = 41"
  "float64 22 = 22"
  "float64 42 = 42"
  "float64 11 = 11"
  "float64 (21 / 2) = 21 / 2"
  "float64 (41 / 2) = 41 / 2"
  "float64 (641 / 64) = 641 / 64"
  "float64 (81951 / 4096) = 81951 / 4096"
  "float64 (321 / 32) = 321 / 32"
  "float64 (20489 / 1024) = 20489 / 1024"
  "float64 (40995 / 4096) = 40995 / 4096"
  "float64 (35 / 32) = 35 / 32"
  "float64 (9 / 8) = 9 / 8"
  "float64 (95 / 32) = 95 / 32"
  "float64 4 = 4"
  "float64 124 = 124"
  "float64 (4001 / 32) = 4001 / 32"
  "float64 (1015 / 8) = 1015 / 8"
  "float64 (4061 / 32) = 4061 / 32"
  "float64 252 = 252"
  "float64 (8097 / 32) = 8097 / 32"
  "float64 (2039 / 8) = 2039 / 8"
  "float64 (8157 / 32) = 8157 / 32"
  "float64 (175 / 16) = 175 / 16"
  "float64 (45 / 4) = 45 / 4"
  "float64 (475 / 16) = 475 / 16"
  "float64 3 = 3"
  by (simp_all add: float_eval)

lemma sample_grid:
  "grid_cells 7 sample_rows =
    [\<lparr>cell_lat = 10, cell_lng = 20, count = 2, center_lat = 10, center_lng = 20, total_customers = 10\<rparr>,
     \<lparr>cell_lat = 21 / 2, cell_lng = 41 / 2, count = 2, center_lat = 21 / 2, center_lng = 41 / 2, total_customers = 10\<rparr>,
     \<lparr>cell_lat = 11, cell_lng = 21, count = 2, center_lat = 11, center_lng = 21, total_customers = 0\<rparr>,
     \<lparr>cell_lat = 501 / 50, cell_lng = 2001 / 100, count = 1, center_lat = 641 / 64, center_lng = 81951 / 4096, total_customers = 7\<rparr>,
     \<lparr>cell_lat = 1003 / 100, cell_lng = 20, count = 1, center_lat = 321 / 32, center_lng = 20, total_customers = 3\<rparr>,
     \<lparr>cell_lat = 10, cell_lng = 2001 / 100, count = 1, center_lat = 10, center_lng = 20489 / 1024, total_customers = 0\<rparr>,
     \<lparr>cell_lat = 1001 / 100, cell_lng = 20, count = 1, center_lat = 40995 / 4096, center_lng = 20, total_customers = 0\<rparr>]"
  by (simp add: grid_cells_def geocoded_def sample_rows_def geocoded_row_fields sample_coords
      sample_doubles agg_step_def agg_init_def agg_trans_def agg_final_def del: not_None_eq)

lemma sample_dense:
  "denseAreasResult sample_engine 7 sample_rows =
    [\<lparr>cell_lat = 10, cell_lng = 20, count = 2, center_lat = 10, center_lng = 20, total_customers = 10\<rparr>,
     \<lparr>cell_lat = 21 / 2, cell_lng = 41 / 2, count = 2, center_lat = 21 / 2, center_lng = 41 / 2, total_customers = 10\<rparr>,
     \<lparr>cell_lat = 11, cell_lng = 21, count = 2, center_lat = 11, center_lng = 21, total_customers = 0\<rparr>]"
  "dense_cells sample_engine 7 sample_rows =
    [\<lparr>cell_lat = 10, cell_lng = 20, count = 2, center_lat = 10, center_lng = 20, total_customers = 10\<rparr>,
     \<lparr>cell_lat = 21 / 2, cell_lng = 41 / 2, count = 2, center_lat = 21 / 2, center_lng = 41 / 2, total_customers = 10\<rparr>,
     \<lparr>cell_lat = 11, cell_lng = 21, count = 2, center_lat = 11, center_lng = 21, total_customers = 0\<rparr>]"
  by (simp_all add: denseAreasResult_def dense_cells_def sample_engine_fields order_by_arrival_0
      sample_grid)

lemma sample_candidates:
  "whitespace_candidates sample_engine 7 sample_rows =
    [(\<lparr>cell_lat = 501 / 50, cell_lng = 2001 / 100, count = 1, center_lat = 641 / 64, center_lng = 81951 / 4096, total_customers = 7\<rparr>, 95 / 32),
     (\<lparr>cell_lat = 10, cell_lng = 2001 / 100, count = 1, center_lat = 10, center_lng = 20489 / 1024, total_customers = 0\<rparr>, 9 / 8),
     (\<lparr>cell_lat = 1001 / 100, cell_lng = 20, count = 1, center_lat = 40995 / 4096, center_lng = 20, total_customers = 0\<rparr>, 35 / 32)]"
  by (simp add: whitespace_candidates_def all_cells_def sample_dense sample_grid
      is_dense_def distance_km_def taxicab_metres_def sample_engine_fields sample_doubles)

lemma sample_query:
  "whiteSpaceQuery sample_engine 7 sample_rows =
    [(\<lparr>cell_lat = 1001 / 100, cell_lng = 20, count = 1, center_lat = 40995 / 4096, center_lng = 20, total_customers = 0\<rparr>, 35 / 32),
     (\<lparr>cell_lat = 10, cell_lng = 2001 / 100, count = 1, center_lat = 10, center_lng = 20489 / 1024, total_customers = 0\<rparr>, 9 / 8),
     (\<lparr>cell_lat = 501 / 50, cell_lng = 2001 / 100, count = 1, center_lat = 641 / 64, center_lng = 81951 / 4096, total_customers = 7\<rparr>, 95 / 32)]"
  by (simp add: whiteSpaceQuery_def sample_candidates sample_engine_fields order_by_arrival_0)

lemma sample_numeric_text:
  "numeric2_text 10 = ''10.00''" "numeric2_text 20 = ''20.00''"
  "numeric2_text (1001 / 100) = ''10.01''" "numeric2_text (2001 / 100) = ''20.01''"
  "numeric2_text (501 / 50) = ''10.02''" "numeric2_text (21 / 2) = ''10.50''"
  "numeric2_text (41 / 2) = ''20.50''" "numeric2_text 11 = ''11.00''"
  "numeric2_text 21 = ''21.00''"
  by (simp_all add: text_eval)

lemma sample_toFixed:
  "toFixed2 10 = ''10.00''" "toFixed2 20 = ''20.00''"
  "toFixed2 (21 / 2) = ''10.50''" "toFixed2 (41 / 2) = ''20.50''"
  "toFixed2 11 = ''11.00''" "toFixed2 21 = ''21.00''"
  "toFixed2 (40995 / 4096) = ''10.01''" "toFixed2 (20489 / 1024) = ''20.01''"
  "toFixed2 (641 / 64) = ''10.02''" "toFixed2 (81951 / 4096) = ''20.01''"
  by (simp_all add: text_eval)

lemma sample_round1:
  "round1 (35 / 32) = float64 (11 / 10)" "round1 (9 / 8) = float64 (11 / 10)"
  "round1 (95 / 32) = 3"
  by (simp_all add: round1_def js_round_def sample_doubles)

lemma sample_areas:
  "whiteSpaceAreas (fst (insights sample_engine no_mapbox 7 sample_rows)) =
    [\<lparr>cellId = ''10.01,20.00'', areaCount = 1, center = (40995 / 4096, 20),
       label = ''Near 10.01, 20.00'', distanceKm = float64 (11 / 10)\<rparr>,
     \<lparr>cellId = ''10.00,20.01'', areaCount = 1, center = (10, 20489 / 1024),
       label = ''Near 10.00, 20.01'', distanceKm = float64 (11 / 10)\<rparr>,
     \<lparr>cellId = ''10.02,20.01'', areaCount = 1, center = (641 / 64, 81951 / 4096),
       label = ''Near 10.02, 20.01'', distanceKm = 3\<rparr>]"
  by (simp add: insights_def getLabels_def sample_dense sample_query whitespace_area_of_def
      dense_area_def cell_id_def cell_center_def sample_round1 fetched_label_def
      no_mapbox_def reverseGeocode_def near_text_def coords_text_def cache_key_def
      sample_numeric_text sample_toFixed Let_def)


lemma example_doubles:
  "float64 (37774901 / 1000000) = 166135771550349 / 4398046511104"
  "float64 (- (30604853 / 250000)) = - (4307250142704025 / 35184372088832)"
  "float64 (4721861 / 125000) = 5316342860023819 / 140737488355328"
  "float64 (- (122419399 / 1000000)) = - (1076812421326797 / 8796093022208)"
  by (simp_all add: float_eval)

lemma example_coords:
  "cell_coord (166135771550349 / 4398046511104) = 3777 / 100"
  "cell_coord (- (4307250142704025 / 35184372088832)) = - (6121 / 50)"
  "cell_coord (5316342860023819 / 140737488355328) = 3777 / 100"
  "cell_coord (- (1076812421326797 / 8796093022208)) = - (6121 / 50)"
  by (simp_all add: num_eval)

lemma example_keys:
  "map row_key example_points = [(3777 / 100, - (6121 / 50)), (3777 / 100, - (6121 / 50))]"
  by (simp add: example_points_def geocoded_row_fields example_doubles example_coords)

lemma example_grid:
  "map (\<lambda>c. (cell_key c, count c, total_customers c)) (grid_cells 7 example_points)
     = [((3777 / 100, - (6121 / 50)), 2, 4)]"
  by (simp add: grid_cells_def geocoded_def example_points_def example_doubles geocoded_row_fields
      example_coords agg_step_def agg_init_def agg_trans_def agg_final_def cell_key_def
      del: not_None_eq)

lemma example_text:
  "numeric2_text (3777 / 100) = ''37.77''" "numeric2_text (- (6121 / 50)) = ''-122.42''"
  by (simp_all add: text_eval)

lemma example_cell_rows:
  "cell_key c = (3777 / 100, - (6121 / 50)) \<Longrightarrow> cell_rows 7 example_points c = example_points"
  by (simp add: cell_rows_def members_def geocoded_def example_points_def
      geocoded_row_fields example_doubles example_coords del: not_None_eq)

lemma tenth_doubles:
  "float64 (1 / 10) = 3602879701896397 / 36028797018963968"
  "float64 (3602879701896397 / 36028797018963968) = 3602879701896397 / 36028797018963968"
  "float64 (3602879701896397 / 18014398509481984) = 3602879701896397 / 18014398509481984"
  "float64 (10808639105689191 / 36028797018963968) = 1351079888211149 / 4503599627370496"
  "float64 (1351079888211149 / 13510798882111488) = 7205759403792795 / 72057594037927936"
  "float64 60 = 60"
  by (simp_all add: float_eval)

lemma tenth_coords: "cell_coord (3602879701896397 / 36028797018963968) = 1 / 10"
  by (simp add: num_eval)

lemma tenth_grid:
  "grid_cells 7 tenth_rows =
     [\<lparr>cell_lat = 1 / 10, cell_lng = 20, count = 3,
        center_lat = 7205759403792795 / 72057594037927936, center_lng = 20, total_customers = 0\<rparr>]"
  by (simp add: grid_cells_def geocoded_def tenth_rows_def tenth_doubles sample_doubles
      geocoded_row_fields tenth_coords sample_coords agg_step_def agg_init_def agg_trans_def
      agg_final_def del: not_None_eq)

lemma tenth_cell_rows: "cell_key c = (1 / 10, 20) \<Longrightarrow> cell_rows 7 tenth_rows c = tenth_rows"
  by (simp add: cell_rows_def members_def geocoded_def tenth_rows_def tenth_doubles
      geocoded_row_fields tenth_coords sample_coords del: not_None_eq)

lemma boundary_doubles:
  "float64 (1511 / 40) = 5316358622622515 / 140737488355328"
  "float64 (18887 / 500) = 332263617820885 / 8796093022208"
  "float64 (- (6121 / 50)) = - (8614541662229627 / 70368744177664)"
  "float64 (5316358622622515 / 140737488355328) = 5316358622622515 / 140737488355328"
  "float64 (332263617820885 / 8796093022208) = 332263617820885 / 8796093022208"
  "float64 (- (8614541662229627 / 70368744177664)) = - (8614541662229627 / 70368744177664)"
  by (simp_all add: float_eval)

lemma boundary_coords:
  "cell_coord (5316358622622515 / 140737488355328) = 1889 / 50"
  "cell_coord (332263617820885 / 8796093022208) = 3777 / 100"
  "cell_coord (- (8614541662229627 / 70368744177664)) = - (6121 / 50)"
  by (simp_all add: num_eval)

lemma boundary_text:
  "numeric2_text (1889 / 50) = ''37.78''" "numeric2_text (3777 / 100) = ''37.77''"
  "numeric2_text (- (6121 / 50)) = ''-122.42''"
  "toFixed2 (5316358622622515 / 140737488355328) = ''37.77''"
  "toFixed2 (332263617820885 / 8796093022208) = ''37.77''"
  "toFixed2 (- (8614541662229627 / 70368744177664)) = ''-122.42''"
  by (simp_all add: text_eval)

lemma boundary_grid:
  "grid_cells 7 boundary_rows =
     [\<lparr>cell_lat = 1889 / 50, cell_lng = - (6121 / 50), count = 1,
        center_lat = 5316358622622515 / 140737488355328,
        center_lng = - (8614541662229627 / 70368744177664), total_customers = 0\<rparr>,
      \<lparr>cell_lat = 3777 / 100, cell_lng = - (6121 / 50), count = 1,
        center_lat = 332263617820885 / 8796093022208,
        center_lng = - (8614541662229627 / 70368744177664), total_customers = 0\<rparr>]"
  by (simp add: grid_cells_def geocoded_def boundary_rows_def boundary_doubles geocoded_row_fields
      boundary_coords agg_step_def agg_init_def agg_trans_def agg_final_def del: not_None_eq)

section \<open>The whitespace areas of the report\<close>

lemma areas_of_query:
  "map (\<lambda>w. (cellId w, areaCount w, center w, distanceKm w))
       (whiteSpaceAreas (fst (insights eng mb uid rows)))
   = map (\<lambda>row. (cell_id (fst row), count (fst row), cell_center (fst row), round1 (snd row)))
       (whiteSpaceQuery eng uid rows)"
proof -
  obtain lbl where "whiteSpaceAreas (fst (insights eng mb uid rows))
      = map (\<lambda>row. whitespace_area_of row (lbl row)) (whiteSpaceQuery eng uid rows)"
    using insights_whiteSpaceAreas by blast
  then show ?thesis by (simp add: whitespace_area_of_def comp_def)
qed


lemma dense_cells_grid: "set (dense_cells eng uid rows) \<subseteq> set (grid_cells uid rows)"
  using dense_cells_top3[of uid rows eng] by (simp add: top3_by_count_def)

lemma denseAreasResult_grid: "set (denseAreasResult eng uid rows) \<subseteq> set (grid_cells uid rows)"
  using denseAreasResult_top3[of uid rows eng] by (simp add: top3_by_count_def)

lemma query_row_facts:
  assumes "row \<in> set (whiteSpaceQuery eng uid rows)"
  shows "fst row \<in> set (grid_cells uid rows) \<and> count (fst row) = 1
     \<and> cell_key (fst row) \<notin> cell_key ` set (dense_cells eng uid rows)
     \<and> fst row \<notin> set (dense_cells eng uid rows)
     \<and> cell_id (fst row) \<notin> cell_id ` set (dense_cells eng uid rows)
     \<and> dense_cells eng uid rows \<noteq> []
     \<and> snd row = Min (distance_km (st_distance eng) (fst row) ` set (dense_cells eng uid rows))
     \<and> snd row \<le> 3"
proof -
  let ?D = "dense_cells eng uid rows"
  from assms have "(fst row, snd row) \<in> set (whitespace_candidates eng uid rows)"
    using query_subset by fastforce
  from candidate_facts[OF this]
  have f: "?D \<noteq> []" "fst row \<in> set (grid_cells uid rows)" "count (fst row) \<le> 1"
    "\<not> is_dense ?D (fst row)"
    "snd row = min_list (map (distance_km (st_distance eng) (fst row)) ?D)" "snd row \<le> 3"
    by blast+
  from f(2) have "1 \<le> count (fst row)" by (rule grid_cell_count_pos)
  with f(3) have 1: "count (fst row) = 1" by simp
  from f(4) have 2: "cell_key (fst row) \<notin> cell_key ` set ?D" by (rule not_dense_key)
  then have 3: "fst row \<notin> set ?D" by blast
  have 4: "cell_id (fst row) \<notin> cell_id ` set ?D"
  proof
    assume "cell_id (fst row) \<in> cell_id ` set ?D"
    then obtain d where d: "d \<in> set ?D" "cell_id (fst row) = cell_id d" by blast
    from d(1) have "d \<in> set (grid_cells uid rows)" using dense_cells_grid by blast
    from cell_id_inj[OF f(2) this d(2)] d(1) 3 show False by simp
  qed
  from f(1,5) have 5: "snd row = Min (distance_km (st_distance eng) (fst row) ` set ?D)"
    by (simp add: nearest_is_Min)
  from f 1 2 3 4 5 show ?thesis by blast
qed

lemma top_of_result:
  "map (\<lambda>a. (cellId a, areaCount a, center a)) (topDenseAreas (fst (insights eng mb uid rows)))
     = map (\<lambda>c. (cell_id c, count c, cell_center c)) (denseAreasResult eng uid rows)"
proof -
  obtain lbl where "topDenseAreas (fst (insights eng mb uid rows))
      = map (\<lambda>c. dense_area c (lbl c)) (denseAreasResult eng uid rows)"
    using insights_topDenseAreas by blast
  then show ?thesis by (simp add: dense_area_def comp_def)
qed

lemma top_ids:
  "cellId ` set (topDenseAreas (fst (insights eng mb uid rows)))
     = cell_id ` set (denseAreasResult eng uid rows)"
proof -
  have "map cellId (topDenseAreas (fst (insights eng mb uid rows)))
      = map cell_id (denseAreasResult eng uid rows)"
    using arg_cong[OF top_of_result[of eng mb uid rows], of "map fst"] by (simp add: comp_def)
  then have "set (map cellId (topDenseAreas (fst (insights eng mb uid rows))))
      = set (map cell_id (denseAreasResult eng uid rows))" by (rule arg_cong)
  then show ?thesis by simp
qed


lemma short_grid:
  assumes "length (grid_cells uid rows) \<le> 3"
  shows "set (denseAreasResult eng uid rows) = set (grid_cells uid rows)
     \<and> length (denseAreasResult eng uid rows) = length (grid_cells uid rows)
     \<and> set (dense_cells eng uid rows) = set (grid_cells uid rows)
     \<and> whiteSpaceQuery eng uid rows = []"
proof -
  have t: "take 3 (order_by key arrival (grid_cells uid rows)) = order_by key arrival (grid_cells uid rows)"
    for key :: "grid_cell \<Rightarrow> int" and arrival
    using assms by (simp add: order_by_length)
  have 1: "set (denseAreasResult eng uid rows) = set (grid_cells uid rows)"
    and 2: "length (denseAreasResult eng uid rows) = length (grid_cells uid rows)"
    by (simp_all add: denseAreasResult_def t order_by_set order_by_length)
  have 3: "set (dense_cells eng uid rows) = set (grid_cells uid rows)"
    by (simp add: dense_cells_def t order_by_set)
  have "is_dense (dense_cells eng uid rows) c" if "c \<in> set (grid_cells uid rows)" for c
    using that unfolding is_dense_def 3 by blast
  then have "filter (\<lambda>ac. count ac \<le> 1 \<and> \<not> is_dense (dense_cells eng uid rows) ac)
      (grid_cells uid rows) = []"
    by (simp add: filter_empty_conv)
  then have "whitespace_candidates eng uid rows = []"
    by (simp add: whitespace_candidates_def all_cells_def Let_def)
  then have 4: "whiteSpaceQuery eng uid rows = []"
    by (simp add: whiteSpaceQuery_def order_by_def)
  from 1 2 3 4 show ?thesis by blast
qed

lemma float64_error':
  "\<exists>c. 0 \<le> c \<and> c \<le> 1 / 2 ^ 53 \<and> \<bar>float64 x - x\<bar> \<le> \<bar>x\<bar> * c"
proof -
  have "0 \<le> (1 :: real) / 2 ^ 53 \<and> (1 :: real) / 2 ^ 53 \<le> 1 / 2 ^ 53
      \<and> \<bar>float64 x - x\<bar> \<le> \<bar>x\<bar> * (1 / 2 ^ 53)"
    using float64_error[of x] by simp
  then show ?thesis by (rule exI)
qed

lemma float64_sign:
  "(0 \<le> x \<longrightarrow> 0 \<le> float64 x) \<and> (x \<le> 0 \<longrightarrow> float64 x \<le> 0)"
proof -
  obtain c where c: "0 \<le> c" "c \<le> 1 / 2 ^ 53" and e: "\<bar>float64 x - x\<bar> \<le> \<bar>x\<bar> * c"
    using float64_error' by blast
  from c have "c \<le> 1" by simp
  then have "\<bar>x\<bar> * c \<le> \<bar>x\<bar> * 1" by (intro mult_left_mono) simp_all
  with e have "\<bar>float64 x - x\<bar> \<le> \<bar>x\<bar>" by simp
  then show ?thesis by (auto simp: abs_le_iff abs_if split: if_splits)
qed

lemma float64_upper:
  assumes "0 \<le> x" and "x \<le> b"
  shows "float64 x \<le> b + b / 2 ^ 53"
proof -
  have "\<bar>float64 x - x\<bar> \<le> \<bar>x\<bar> / 2 ^ 53" by (rule float64_error)
  then have "float64 x \<le> x + x / 2 ^ 53" using assms(1) by linarith
  moreover have "x / 2 ^ 53 \<le> b / 2 ^ 53" using assms(2) by (simp add: divide_right_mono)
  ultimately show ?thesis using assms(2) by linarith
qed

lemma round1_tenth:
  "\<exists>n::int. round1 d = float64 (of_int n / 10) \<and> \<bar>of_int n / 10 - d\<bar> \<le> 1 / 20 + \<bar>d\<bar> / 2 ^ 53"
proof -
  define y where "y = float64 (d * 10)"
  define n where "n = \<lfloor>y + 1 / 2\<rfloor>"
  have "\<bar>y - d * 10\<bar> \<le> \<bar>d * 10\<bar> / 2 ^ 53" unfolding y_def by (rule float64_error)
  then have e: "\<bar>y - d * 10\<bar> \<le> 10 * (\<bar>d\<bar> / 2 ^ 53)" by (simp add: abs_mult)
  have lo: "of_int n \<le> y + 1 / 2" unfolding n_def by (rule of_int_floor_le)
  have hi: "y + 1 / 2 < of_int n + 1" unfolding n_def by linarith
  have r: "round1 d = float64 (of_int n / 10)"
    by (simp add: round1_def js_round_def n_def y_def)
  have "\<bar>of_int n / 10 - d\<bar> \<le> 1 / 20 + \<bar>d\<bar> / 2 ^ 53" using lo hi e by linarith
  with r have "round1 d = float64 (of_int n / 10)
      \<and> \<bar>of_int n / 10 - d\<bar> \<le> 1 / 20 + \<bar>d\<bar> / 2 ^ 53" by (rule conjI)
  then show ?thesis by (rule exI)
qed

lemma float64_3: "float64 3 = 3"
  by (simp add: float_eval)

lemma round1_le_3:
  assumes "d \<le> 3"
  shows "round1 d \<le> 3"
proof -
  define y where "y = float64 (d * 10)"
  define n where "n = \<lfloor>y + 1 / 2\<rfloor>"
  have r: "round1 d = float64 (of_int n / 10)"
    by (simp add: round1_def js_round_def n_def y_def)
  have "y < 30 + 1 / 2"
  proof (cases "0 \<le> d")
    case True
    then have "0 \<le> d * 10" and "d * 10 \<le> 30" using assms by simp_all
    from float64_upper[OF this] have "y \<le> 30 + 30 / 2 ^ 53" by (simp add: y_def)
    moreover have "(30 :: real) / 2 ^ 53 < 1 / 2" by simp
    ultimately show ?thesis by linarith
  next
    case False
    then have "d * 10 \<le> 0" by simp
    with float64_sign[of "d * 10"] have "y \<le> 0" by (simp add: y_def)
    then show ?thesis by simp
  qed
  then have "n < 31" unfolding n_def by (simp add: floor_less_iff)
  then have "n = 30 \<or> n \<le> 29" by arith
  then show ?thesis
  proof
    assume "n = 30"
    then show ?thesis unfolding r by (simp add: float64_3)
  next
    assume n: "n \<le> 29"
    define q :: real where "q = of_int n / 10"
    from n have "(of_int n :: real) \<le> of_int 29" by (simp only: of_int_le_iff)
    then have q: "q \<le> 29 / 10" unfolding q_def by simp
    have rq: "round1 d = float64 q" unfolding r q_def ..
    show ?thesis
    proof (cases "0 \<le> q")
      case True
      from float64_upper[OF True q] have "float64 q \<le> 29 / 10 + 29 / 10 / 2 ^ 53" .
      moreover have "(29 :: real) / 10 / 2 ^ 53 < 1 / 10" by simp
      ultimately show ?thesis unfolding rq by linarith
    next
      case False
      with float64_sign[of q] have "float64 q \<le> 0" by simp
      then show ?thesis unfolding rq by simp
    qed
  qed
qed

section \<open>The geocoding run\<close>

declare geocode_batches.simps [simp del]

lemma process_row_fields:
  "resolved (process_row f g r s) = resolved s @ [r]
   \<and> issued (process_row f g r s) = issued s + 1
   \<and> (rejected (process_row f g r s)
        \<longleftrightarrow> rejected s \<or> f (issued s) (UpdateRow (row_id r) (g r)))"
  by (simp add: process_row_def Let_def)

lemma process_row_counts:
  assumes "\<not> rejected (process_row f g r s)"
  shows "successCount (process_row f g r s) = successCount s + (if succeeded (g r) then 1 else 0)
     \<and> failedCount (process_row f g r s) = failedCount s + (if succeeded (g r) then 0 else 1)"
  using assms by (simp add: process_row_def Let_def split: if_splits)

lemma fold_process_row:
  "resolved (fold (process_row f g) rs s) = resolved s @ rs
   \<and> issued (fold (process_row f g) rs s) = issued s + length rs
   \<and> (rejected s \<longrightarrow> rejected (fold (process_row f g) rs s))"
proof (induction rs arbitrary: s)
  case Nil
  show ?case by simp
next
  case (Cons r rs)
  show ?case
    using Cons.IH[of "process_row f g r s"] process_row_fields[of f g r s] by simp
qed

lemma fold_process_row_accepted:
  assumes "\<And>n q. \<not> f n q"
  shows "rejected (fold (process_row f g) rs s) = rejected s"
proof (induction rs arbitrary: s)
  case Nil
  show ?case by simp
next
  case (Cons r rs)
  have "rejected (process_row f g r s) = rejected s"
    using process_row_fields[of f g r s] assms by blast
  with Cons.IH[of "process_row f g r s"] show ?case by simp
qed

lemma fold_process_row_counts:
  assumes "\<not> rejected (fold (process_row f g) rs s)"
  shows "successCount (fold (process_row f g) rs s)
           = successCount s + length (filter (\<lambda>r. succeeded (g r)) rs)
     \<and> failedCount (fold (process_row f g) rs s)
           = failedCount s + length (filter (\<lambda>r. \<not> succeeded (g r)) rs)"
  using assms
proof (induction rs arbitrary: s)
  case Nil
  show ?case by simp
next
  case (Cons r rs)
  from Cons.prems have a: "\<not> rejected (fold (process_row f g) rs (process_row f g r s))" by simp
  have "\<not> rejected (process_row f g r s)"
    using a fold_process_row[of f g rs "process_row f g r s"] by blast
  from process_row_counts[OF this] Cons.IH[OF a] show ?case by simp
qed

lemma drop_batch: "drop i rows = take n (drop i rows) @ drop (i + n) rows"
  by (metis append_take_drop_id drop_drop add.commute)

lemma geocode_batches_calls:
  "\<exists>k. resolved (geocode_batches f g rows i s) = resolved s @ take (k * batchSize) (drop i rows)"
proof (induction f g rows i s rule: geocode_batches.induct)
  case (1 f g rows i s)
  define s' where "s' = fold (process_row f g) (take batchSize (drop i rows)) s"
  have r': "resolved s' = resolved s @ take batchSize (drop i rows)"
    unfolding s'_def using fold_process_row[of f g "take batchSize (drop i rows)" s] by blast
  show ?case
  proof (cases "i < length rows")
    case False
    then have "geocode_batches f g rows i s = s" by (simp add: geocode_batches.simps[of f g rows i s])
    then have "resolved (geocode_batches f g rows i s) = resolved s @ take (0 * batchSize) (drop i rows)"
      by simp
    then show ?thesis by (rule exI)
  next
    case True
    show ?thesis
    proof (cases "rejected s'")
      case rej: True
      with True have "geocode_batches f g rows i s = s'"
        by (simp add: geocode_batches.simps[of f g rows i s] s'_def Let_def)
      then have "resolved (geocode_batches f g rows i s) = resolved s @ take (1 * batchSize) (drop i rows)"
        by (simp add: r')
      then show ?thesis by (rule exI)
    next
      case ok: False
      with True have e: "geocode_batches f g rows i s = geocode_batches f g rows (i + batchSize) s'"
        by (simp add: geocode_batches.simps[of f g rows i s] s'_def Let_def)
      from "1.IH"[OF True s'_def ok]
      obtain k where k: "resolved (geocode_batches f g rows (i + batchSize) s')
          = resolved s' @ take (k * batchSize) (drop (i + batchSize) rows)" by blast
      have "take (batchSize + k * batchSize) (drop i rows)
          = take batchSize (drop i rows) @ take (k * batchSize) (drop (i + batchSize) rows)"
        by (simp add: take_add add.commute)
      then have "resolved (geocode_batches f g rows i s)
          = resolved s @ take (Suc k * batchSize) (drop i rows)"
        unfolding e k r' by simp
      then show ?thesis by (rule exI)
    qed
  qed
qed

lemma geocode_batches_completed:
  assumes "\<not> rejected (geocode_batches f g rows i s)"
  shows "resolved (geocode_batches f g rows i s) = resolved s @ drop i rows
     \<and> successCount (geocode_batches f g rows i s)
           = successCount s + length (filter (\<lambda>r. succeeded (g r)) (drop i rows))"
  using assms
proof (induction f g rows i s rule: geocode_batches.induct)
  case (1 f g rows i s)
  define s' where "s' = fold (process_row f g) (take batchSize (drop i rows)) s"
  have r': "resolved s' = resolved s @ take batchSize (drop i rows)"
    unfolding s'_def using fold_process_row[of f g "take batchSize (drop i rows)" s] by blast
  show ?case
  proof (cases "i < length rows")
    case False
    then show ?thesis by (simp add: geocode_batches.simps[of f g rows i s])
  next
    case True
    have ok: "\<not> rejected s'"
    proof
      assume r: "rejected s'"
      with True have "geocode_batches f g rows i s = s'"
        by (simp add: geocode_batches.simps[of f g rows i s] s'_def Let_def)
      then have "rejected (geocode_batches f g rows i s) = rejected s'" by (rule arg_cong)
      with r "1.prems" show False by blast
    qed
    with True have e: "geocode_batches f g rows i s = geocode_batches f g rows (i + batchSize) s'"
      by (simp add: geocode_batches.simps[of f g rows i s] s'_def Let_def)
    from "1.prems" have "\<not> rejected (geocode_batches f g rows (i + batchSize) s')" unfolding e .
    from "1.IH"[OF True s'_def ok this]
    have ih: "resolved (geocode_batches f g rows (i + batchSize) s')
          = resolved s' @ drop (i + batchSize) rows"
      "successCount (geocode_batches f g rows (i + batchSize) s')
          = successCount s' + length (filter (\<lambda>r. succeeded (g r)) (drop (i + batchSize) rows))"
      by blast+
    from ok have c': "successCount s'
        = successCount s + length (filter (\<lambda>r. succeeded (g r)) (take batchSize (drop i rows)))"
      unfolding s'_def using fold_process_row_counts by blast
    have d: "drop i rows = take batchSize (drop i rows) @ drop (i + batchSize) rows"
      by (rule drop_batch)
    have 1: "resolved (geocode_batches f g rows i s) = resolved s @ drop i rows"
      unfolding e ih(1) r' using d by simp
    have "length (filter (\<lambda>r. succeeded (g r)) (drop i rows))
        = length (filter (\<lambda>r. succeeded (g r)) (take batchSize (drop i rows)))
          + length (filter (\<lambda>r. succeeded (g r)) (drop (i + batchSize) rows))"
      by (subst d) simp
    then have 2: "successCount (geocode_batches f g rows i s)
        = successCount s + length (filter (\<lambda>r. succeeded (g r)) (drop i rows))"
      unfolding e ih(2) c' by simp
    from 1 2 show ?thesis ..
  qed
qed

lemma geocode_batches_accepted:
  assumes acc: "\<And>n q. \<not> f n q"
  shows "\<not> rejected s \<Longrightarrow> \<not> rejected (geocode_batches f g rows i s)"
proof (induction "length rows - i" arbitrary: i s rule: less_induct)
  case less
  define s' where "s' = fold (process_row f g) (take batchSize (drop i rows)) s"
  have ok: "\<not> rejected s'"
    unfolding s'_def using fold_process_row_accepted[of f g, OF acc] less.prems by simp
  show ?case
  proof (cases "i < length rows")
    case False
    then have "geocode_batches f g rows i s = s" by (simp add: geocode_batches.simps[of f g rows i s])
    with less.prems show ?thesis by simp
  next
    case True
    with ok have e: "geocode_batches f g rows i s = geocode_batches f g rows (i + batchSize) s'"
      by (simp add: geocode_batches.simps[of f g rows i s] s'_def Let_def)
    from True have "length rows - (i + batchSize) < length rows - i" by (simp add: batchSize_def)
    from less.hyps[OF this ok] show ?thesis unfolding e .
  qed
qed

lemma pending_rows_set_status [simp]: "pending_rows uid (set_status u s st) = pending_rows uid st"
  by (simp add: pending_rows_def set_status_def)

lemma uploads_set_status:
  "uploads st uid \<noteq> None \<Longrightarrow> uploads (set_status uid s st) = (uploads st)(uid \<mapsto> s)"
  by (cases "uploads st uid") (simp_all add: set_status_def)

lemma set_status_other: "uid' \<noteq> uid \<Longrightarrow> uploads (set_status uid s st) uid' = uploads st uid'"
  by (simp add: set_status_def)

lemma set_status_missing: "uploads st uid = None \<Longrightarrow> set_status uid s st = st"
  by (simp add: set_status_def)

lemma set_status_rows [simp]: "upload_rows (set_status uid s st) = upload_rows st"
  by (simp add: set_status_def)

lemma pending_rows_uploads_update [simp]:
  "pending_rows uid (st\<lparr>uploads := u\<rparr>) = pending_rows uid st"
  by (simp add: pending_rows_def)

lemma caught_fields:
  "response (caught f n uid resp st w c) = resp
   \<and> resolver_calls (caught f n uid resp st w c) = c
   \<and> thrown (caught f n uid resp st w c)
   \<and> (status_writes (caught f n uid resp st w c) = w
        \<and> after (caught f n uid resp st w c) = st
      \<or> status_writes (caught f n uid resp st w c) = w @ [UploadFailed]
        \<and> after (caught f n uid resp st w c) = set_status uid UploadFailed st)"
  by (simp add: caught_def)

lemma start_geocoding_missing:
  assumes "uploads st uid = None"
  shows "after (start_geocoding f g uid st) = st
     \<and> resolver_calls (start_geocoding f g uid st) = []"
  using assms by (simp add: start_geocoding_def caught_def set_status_def)

lemma start_geocoding_other:
  assumes "uid' \<noteq> uid"
  shows "uploads (after (start_geocoding f g uid st)) uid' = uploads st uid'"
  using assms by (simp add: start_geocoding_def caught_def set_status_def Let_def)

lemma start_geocoding_calls:
  "\<exists>k. resolver_calls (start_geocoding f g uid st) = take (k * batchSize) (pending_rows uid st)"
proof -
  let ?init = "\<lparr>table = upload_rows (set_status uid Processing st), successCount = 0,
      failedCount = 0, resolved = [], issued = 3, rejected = False\<rparr>"
  let ?fin = "geocode_batches f g (pending_rows uid st) 0 ?init"
  from geocode_batches_calls[where f = f and g = g and rows = "pending_rows uid st" and i = 0
      and s = ?init]
  obtain k where k: "resolved ?fin = take (k * batchSize) (pending_rows uid st)" by auto
  have e: "[] = take (0 * batchSize) (pending_rows uid st)" by simp
  have "resolver_calls (start_geocoding f g uid st) = []
      \<or> resolver_calls (start_geocoding f g uid st) = resolved ?fin"
    by (simp add: start_geocoding_def caught_def Let_def)
  then show ?thesis using k e by metis
qed

lemma start_geocoding_writes:
  "status_writes (start_geocoding f g uid st)
     \<in> {[], [UploadFailed], [Processing], [Processing, UploadFailed], [Processing, Done]}
   \<and> (thrown (start_geocoding f g uid st)
        \<longrightarrow> Done \<notin> set (status_writes (start_geocoding f g uid st)))
   \<and> (uploads st uid \<noteq> None \<longrightarrow>
        uploads (after (start_geocoding f g uid st)) uid
          = (if status_writes (start_geocoding f g uid st) = [] then uploads st uid
             else Some (last (status_writes (start_geocoding f g uid st)))))"
  by (cases "uploads st uid") (simp_all add: start_geocoding_def caught_def set_status_def Let_def)

lemma start_geocoding_completed:
  assumes ex: "uploads st uid \<noteq> None" and ok: "\<not> thrown (start_geocoding f g uid st)"
  shows "response (start_geocoding f g uid st) = Started
     \<and> resolver_calls (start_geocoding f g uid st) = pending_rows uid st
     \<and> status_writes (start_geocoding f g uid st)
         = [Processing, if pending_rows uid st = [] \<or> (\<exists>r \<in> set (pending_rows uid st). succeeded (g r))
                        then Done else UploadFailed]"
proof -
  let ?rows = "pending_rows uid st"
  let ?init = "\<lparr>table = upload_rows (set_status uid Processing st), successCount = 0,
      failedCount = 0, resolved = [], issued = 3, rejected = False\<rparr>"
  let ?fin = "geocode_batches f g ?rows 0 ?init"
  from ex obtain y where y: "uploads st uid = Some y" by blast
  show ?thesis
  proof (cases "?rows = []")
    case True
    with ok y show ?thesis
      by (simp add: start_geocoding_def caught_def Let_def split: if_splits)
  next
    case False
    have nr: "\<not> rejected ?fin"
    proof
      assume "rejected ?fin"
      with False y have "thrown (start_geocoding f g uid st)"
        by (simp add: start_geocoding_def caught_def Let_def)
      with ok show False ..
    qed
    from geocode_batches_completed[OF nr]
    have res: "resolved ?fin = ?rows"
      and cnt: "successCount ?fin = length (filter (\<lambda>r. succeeded (g r)) ?rows)" by simp_all
    have pos: "0 < successCount ?fin \<longleftrightarrow> (\<exists>r \<in> set ?rows. succeeded (g r))"
      unfolding cnt by (simp add: filter_empty_conv)
    show ?thesis
      using False ok y nr res pos
      by (auto simp: start_geocoding_def caught_def Let_def split: if_splits)
  qed
qed

lemma start_geocoding_accepted:
  assumes acc: "\<forall>n q. \<not> f n q"
  shows "\<not> thrown (start_geocoding f g uid st)"
proof -
  let ?init = "\<lparr>table = upload_rows (set_status uid Processing st), successCount = 0,
      failedCount = 0, resolved = [], issued = 3, rejected = False\<rparr>"
  from acc have a: "\<not> f n q" for n q by blast
  have "\<not> rejected (geocode_batches f g (pending_rows uid st) 0 ?init)"
    by (rule geocode_batches_accepted[OF a]) simp
  then show ?thesis by (simp add: start_geocoding_def Let_def a)
qed

lemma sample_store_uploads:
  "uploads sample_store 7 = Some Uploaded" "uploads sample_store 8 = Some UploadFailed"
  "uploads sample_store 9 = Some Uploaded"
  by (simp_all add: sample_store_def)

lemma sample_store_pending:
  "pending_rows 7 sample_store = [pending_row 71 7 ''1 Main St'', pending_row 72 7 ''nowhere'']"
  "pending_rows 8 sample_store = []" "pending_rows 9 sample_store = []"
  by (simp_all add: pending_rows_def sample_store_def pending_row_def failed_row_def)

lemma sample_resolver_results:
  "succeeded (sample_resolver (pending_row 71 7 ''1 Main St''))"
  "\<not> succeeded (sample_resolver (pending_row 72 7 ''nowhere''))"
  "\<not> succeeded (failing_resolver r)"
  by (simp_all add: succeeded_def sample_resolver_def failing_resolver_def pending_row_def)

lemma no_faults_accepts: "\<forall>n q. \<not> no_faults n q"
  by (simp add: no_faults_def)

section \<open>The label policy\<close>

lemma first_priority_find:
  "first_priority ts fs =
     (case find (\<lambda>t. \<exists>f \<in> set fs. has_type t f) ts of
        None \<Rightarrow> None
      | Some t \<Rightarrow> find (has_type t) fs)"
proof (induction ts)
  case Nil
  show ?case by simp
next
  case (Cons t ts)
  show ?case
  proof (cases "find (has_type t) fs")
    case None
    then have "\<not> (\<exists>f \<in> set fs. has_type t f)" by (simp add: find_None_iff)
    with None Cons show ?thesis by simp
  next
    case (Some f)
    then have "\<exists>f \<in> set fs. has_type t f" by (metis find_Some_iff nth_mem)
    with Some show ?thesis by simp
  qed
qed

lemma first_priority_none:
  "first_priority ts fs = None \<longleftrightarrow> (\<forall>f \<in> set fs. \<forall>t \<in> set ts. \<not> has_type t f)"
proof (induction ts)
  case Nil
  show ?case by simp
next
  case (Cons t ts)
  show ?case
  proof (cases "find (has_type t) fs")
    case None
    then have "\<forall>f \<in> set fs. \<not> has_type t f" by (simp add: find_None_iff)
    with None Cons show ?thesis by auto
  next
    case (Some f)
    then have "\<exists>f \<in> set fs. has_type t f" by (metis find_Some_iff nth_mem)
    with Some show ?thesis by auto
  qed
qed

lemma truthy_differs:
  "truthy x \<Longrightarrow> (Some name \<noteq> x) = (the x \<noteq> name)"
  by (cases x) (auto simp: truthy_def)

lemma area_label_named:
  assumes "truthy (f_text f)"
  shows "area_label lt lg f = composed_label f"
proof -
  from assms obtain name where n: "f_text f = Some name"
    by (cases "f_text f") (simp_all add: truthy_def)
  define ctx where "ctx = (case f_context f of None \<Rightarrow> [] | Some c \<Rightarrow> c)"
  define locality where "locality = context_text ''locality'' ctx"
  define region where "region = context_text ''region'' ctx"
  have js: "\<And>x. truthy x \<Longrightarrow> js_string x = the x"
  proof -
    fix x show "truthy x \<Longrightarrow> js_string x = the x"
      by (cases x) (simp_all add: truthy_def js_string_def)
  qed
  note l = js[of locality] and r = js[of region]
  have a: "area_label lt lg f =
      (if truthy locality \<and> Some name \<noteq> locality then name @ '' / '' @ js_string locality
       else if truthy region \<and> Some name \<noteq> region then name @ '' / '' @ js_string region
       else name)"
    using assms n
    by (simp add: area_label_def Let_def js_string_def ctx_def locality_def region_def)
  have c: "composed_label f =
      (if truthy locality \<and> the locality \<noteq> name then name @ '' / '' @ the locality
       else if truthy region \<and> the region \<noteq> name then name @ '' / '' @ the region
       else name)"
    using n by (simp add: composed_label_def Let_def ctx_def locality_def region_def)
  show ?thesis
    unfolding a c using l r truthy_differs[of locality name] truthy_differs[of region name]
    by presburger
qed

lemma reverseGeocode_features:
  assumes "fs \<noteq> []"
  shows "reverseGeocode lt lg (Body (Some fs)) =
     (case first_priority priorityTypes fs of
        Some feat \<Rightarrow> area_label lt lg feat
      | None \<Rightarrow>
          if \<not> has_type ''address'' (hd fs)
          then (if truthy (f_text (hd fs)) then js_string (f_text (hd fs)) else coords_text lt lg)
          else near_text lt lg)"
  using assms by (cases fs) (auto simp: reverseGeocode_def split: option.splits)

lemma first_priority_preferred:
  "first_priority priorityTypes fs =
     (case preferred_type fs of None \<Rightarrow> None | Some t \<Rightarrow> find (has_type t) fs)"
  by (simp add: preferred_type_def first_priority_find)

lemma sample_feature_types:
  "has_type t street_feature \<longleftrightarrow> t = ''address''"
  "has_type t cafe_feature \<longleftrightarrow> t = ''poi''"
  "has_type t city_feature \<longleftrightarrow> t = ''place''"
  "has_type t hood_feature \<longleftrightarrow> t = ''neighborhood''"
  by (auto simp: has_type_def street_feature_def cafe_feature_def city_feature_def hood_feature_def)

lemma sample_preferred:
  "preferred_type [cafe_feature, city_feature, hood_feature] = Some ''neighborhood''"
  "preferred_type [street_feature, cafe_feature] = None"
  "preferred_type [cafe_feature, street_feature] = None"
  by (simp_all add: preferred_type_def priorityTypes_def sample_feature_types)

lemma sample_find:
  "find (has_type ''neighborhood'') [cafe_feature, city_feature, hood_feature] = Some hood_feature"
  by (simp add: sample_feature_types)

lemma sample_composed: "composed_label hood_feature = ''Mission District / California''"
  by (simp add: composed_label_def hood_feature_def context_text_def truthy_def Let_def)

lemma sample_names:
  "f_text cafe_feature = Some ''Cafe''" "truthy (f_text cafe_feature)"
  "truthy (f_text hood_feature)"
  by (simp_all add: truthy_def cafe_feature_def hood_feature_def)

lemma near_10_20: "near_text 10 20 = ''Near 10.00, 20.00''"
  by (simp add: near_text_def coords_text_def sample_toFixed)

lemma radius_values:
  assumes "distanceKm w \<le> 3"
  shows "radius w = max (1 / 2) (of_int \<lceil>distanceKm w\<rceil>)
     \<and> (radius w = 1 / 2 \<or> radius w = 1 \<or> radius w = 2 \<or> radius w = 3)"
proof -
  define n where "n = \<lceil>distanceKm w\<rceil>"
  from assms have "n \<le> 3" unfolding n_def by (simp add: ceiling_le_iff)
  then have "n \<le> 0 \<or> n = 1 \<or> n = 2 \<or> n = 3" by arith
  moreover have "radius w = min 3 (max (1 / 2) (of_int n))"
    by (simp add: radius_def js_ceil_def n_def)
  ultimately show ?thesis
    unfolding n_def[symmetric] by (auto simp: max_def min_def)
qed

lemma whitespace_json_fields:
  "json_field ''radius'' (whitespace_json w) = None
   \<and> json_field ''distanceKm'' (whitespace_json w) = Some (JNum (distanceKm w))
   \<and> map fst (case whitespace_json w of JObj kvs \<Rightarrow> kvs | _ \<Rightarrow> [])
        = [''cellId'', ''count'', ''center'', ''distanceKm'', ''label'']"
  by (simp add: json_field_def whitespace_json_def)

lemma area_distance_le_3:
  assumes "w \<in> set (whiteSpaceAreas (fst (insights eng mb uid rows)))"
  shows "distanceKm w \<le> 3"
proof -
  from assms have "distanceKm w \<in> set (map distanceKm (whiteSpaceAreas (fst (insights eng mb uid rows))))"
    by simp
  also have "map distanceKm (whiteSpaceAreas (fst (insights eng mb uid rows)))
      = map (\<lambda>row. round1 (snd row)) (whiteSpaceQuery eng uid rows)"
    using arg_cong[OF areas_of_query[of eng mb uid rows], of "map (\<lambda>(a, b, c, d). d)"]
    by (simp add: comp_def)
  finally obtain row where row: "row \<in> set (whiteSpaceQuery eng uid rows)"
    and d: "distanceKm w = round1 (snd row)" by auto
  from row have "snd row \<le> 3" using query_row_facts by blast
  from round1_le_3[OF this] d show ?thesis by simp
qed

lemma getLabels_calls:
  "fst (snd (getLabels mb cache ps)) = filter (\<lambda>p. cache (cache_key p) = None) ps"
  by (simp add: getLabels_def Let_def)

lemma fold_cache_dom:
  "dom (fold (\<lambda>p c. c(cache_key p \<mapsto> l p)) ps cache) = dom cache \<union> cache_key ` set ps"
  by (induction ps arbitrary: cache) auto

lemma getLabels_cache_dom:
  "dom (snd (snd (getLabels mb Map.empty ps))) = cache_key ` set ps"
  by (simp add: getLabels_def Let_def fold_cache_dom)

lemma insights_calls:
  "snd (insights eng mb uid rows) =
     map cell_center (denseAreasResult eng uid rows)
     @ filter (\<lambda>p. cache_key p \<notin> cache_key ` set (map cell_center (denseAreasResult eng uid rows)))
         (map (\<lambda>row. cell_center (fst row)) (whiteSpaceQuery eng uid rows))"
proof -
  let ?D = "denseAreasResult eng uid rows"
  obtain l1 c1 k1 where g1: "getLabels mb Map.empty (map cell_center ?D) = (l1, c1, k1)"
    by (metis prod_cases3)
  let ?ws = "whiteSpaceQuery eng uid rows"
  obtain l2 c2 k2 where g2: "getLabels mb k1 (map (\<lambda>row. cell_center (fst row)) ?ws) = (l2, c2, k2)"
    by (metis prod_cases3)
  have c1: "c1 = map cell_center ?D"
    using getLabels_calls[of mb Map.empty "map cell_center ?D"] g1 by simp
  have k1: "dom k1 = cache_key ` set (map cell_center ?D)"
    using getLabels_cache_dom[of mb "map cell_center ?D"] g1 by simp
  have c2: "c2 = filter (\<lambda>p. k1 (cache_key p) = None) (map (\<lambda>row. cell_center (fst row)) ?ws)"
    using getLabels_calls[of mb k1 "map (\<lambda>row. cell_center (fst row)) ?ws"] g2 by simp
  have "\<And>p. (k1 (cache_key p) = None) = (cache_key p \<notin> cache_key ` set (map cell_center ?D))"
    unfolding k1[symmetric] by (simp add: domIff)
  with c2 have c2': "c2 = filter (\<lambda>p. cache_key p \<notin> cache_key ` set (map cell_center ?D))
      (map (\<lambda>row. cell_center (fst row)) ?ws)" by simp
  have l1: "length l1 = length ?D"
    using getLabels_labels[of mb Map.empty "map cell_center ?D"] g1 by simp
  have top: "map2 dense_area ?D l1 = [] \<longleftrightarrow> ?D = []"
    using l1 by (cases ?D; cases l1) auto
  show ?thesis
  proof (cases "?D = []")
    case True
    then have "dense_cells eng uid rows = []" by (simp only: dense_results_empty)
    then have "?ws = []" by (rule query_empty)
    with True show ?thesis using g1 c1 by (simp add: insights_def Let_def getLabels_def)
  next
    case False
    have "snd (insights eng mb uid rows) = c1 @ c2"
      using False top g1 g2 by (simp add: insights_def Let_def)
    then show ?thesis unfolding c1 c2' .
  qed
qed

lemma boundary_keys:
  assumes "c \<in> set (grid_cells 7 boundary_rows)"
  shows "cache_key (cell_center c) = ''37.77,-122.42''"
  using assms by (auto simp: boundary_grid cell_center_def cache_key_def boundary_text)

lemma boundary_ids:
  "cell_id ` set (grid_cells 7 boundary_rows) = {''37.78,-122.42'', ''37.77,-122.42''}"
  by (simp add: boundary_grid cell_id_def boundary_text)

lemma boundary_short: "length (grid_cells 7 boundary_rows) = 2"
  by (simp add: boundary_grid)

lemma map_const_replicate: "(\<And>x. x \<in> set xs \<Longrightarrow> f x = k) \<Longrightarrow> map f xs = replicate (length xs) k"
  by (induction xs) auto

section \<open>Customer totals and the concentration\<close>

lemma foldl_plus_sum: "foldl (\<lambda>s x. s + f x) a xs = a + sum_list (map f xs)"
  for a :: int
  by (induction xs arbitrary: a) simp_all

lemma customersInTop3_sum: "customersInTop3 dense = sum_list (map total_customers dense)"
  by (simp add: customersInTop3_def foldl_plus_sum)

lemma sum_filter_split:
  fixes f :: "'a \<Rightarrow> int"
  assumes "k \<notin> set ks"
  shows "sum_list (map f (filter (\<lambda>r. key r \<in> set (k # ks)) rs))
       = sum_list (map f (filter (\<lambda>r. key r = k) rs))
         + sum_list (map f (filter (\<lambda>r. key r \<in> set ks) rs))"
  using assms by (induction rs) auto

lemma sum_by_keys:
  fixes f :: "'a \<Rightarrow> int"
  assumes "distinct ks"
  shows "sum_list (map (\<lambda>k. sum_list (map f (filter (\<lambda>r. key r = k) rs))) ks)
       = sum_list (map f (filter (\<lambda>r. key r \<in> set ks) rs))"
  using assms
proof (induction ks)
  case Nil
  show ?case by simp
next
  case (Cons k ks)
  then have k: "k \<notin> set ks" and d: "distinct ks" by simp_all
  show ?case
    unfolding sum_filter_split[OF k] using Cons.IH[OF d] by simp
qed

lemma denseAreasResult_distinct: "distinct (map cell_key (denseAreasResult eng uid rows))"
proof -
  have "distinct (denseAreasResult eng uid rows)"
    using denseAreasResult_top3[of uid rows eng] by (simp add: top3_by_count_def)
  moreover have "inj_on cell_key (set (grid_cells uid rows))"
    using grid_cells_distinct[of uid rows] by (simp add: distinct_map)
  then have "inj_on cell_key (set (denseAreasResult eng uid rows))"
    using denseAreasResult_grid by (rule inj_on_subset)
  ultimately show ?thesis by (simp add: distinct_map)
qed

lemma customersInTop3_rows:
  "customersInTop3 (denseAreasResult eng uid rows) = top3_customers eng uid rows"
proof -
  let ?D = "denseAreasResult eng uid rows"
  let ?G = "geocoded uid rows"
  let ?S = "\<lambda>k. sum_list (map cc0 (filter (\<lambda>r. row_key r = k) ?G))"
  have A: "map total_customers ?D = map (\<lambda>c. ?S (cell_key c)) ?D"
  proof (rule map_cong[OF refl])
    fix c assume "c \<in> set ?D"
    then have "c \<in> set (grid_cells uid rows)" using denseAreasResult_grid by blast
    from grid_cell_contents[OF this]
    show "total_customers c = ?S (cell_key c)"
      by (simp add: cell_rows_def members_def)
  qed
  have B: "map (\<lambda>c. ?S (cell_key c)) ?D = map ?S (map cell_key ?D)"
    by (simp add: comp_def)
  have C: "sum_list (map ?S (map cell_key ?D))
      = sum_list (map cc0 (filter (\<lambda>r. row_key r \<in> set (map cell_key ?D)) ?G))"
    by (rule sum_by_keys[OF denseAreasResult_distinct])
  have "customersInTop3 ?D = sum_list (map total_customers ?D)"
    by (rule customersInTop3_sum)
  also have "\<dots> = sum_list (map ?S (map cell_key ?D))"
    by (simp only: A B)
  also note C
  finally show ?thesis by (simp only: top3_customers_def set_map)
qed

lemma totalCustomers_rows: "totalCustomers uid rows = success_customers uid rows"
  unfolding totalCustomers_def success_customers_def
  by (induction rows) (auto simp: cc0_def)

lemma sum_filter_mono:
  fixes f :: "'a \<Rightarrow> int"
  assumes "\<forall>r \<in> set rs. Q r \<longrightarrow> 0 \<le> f r" and "\<And>r. P r \<Longrightarrow> Q r"
  shows "0 \<le> sum_list (map f (filter P rs))
     \<and> sum_list (map f (filter P rs)) \<le> sum_list (map f (filter Q rs))"
  using assms by (induction rs) auto

lemma top3_le_success:
  assumes "\<forall>r \<in> set rows. upload_id r = uid \<and> geocode_status r = Success \<longrightarrow> 0 \<le> cc0 r"
  shows "0 \<le> top3_customers eng uid rows \<and> top3_customers eng uid rows \<le> success_customers uid rows"
proof -
  let ?Q = "\<lambda>r. upload_id r = uid \<and> geocode_status r = Success"
  let ?P = "\<lambda>r. (upload_id r = uid \<and> geocode_status r = Success \<and> lat r \<noteq> None \<and> lng r \<noteq> None)
              \<and> row_key r \<in> cell_key ` set (denseAreasResult eng uid rows)"
  have eq: "top3_customers eng uid rows = sum_list (map cc0 (filter ?P rows))"
    by (simp only: top3_customers_def geocoded_def filter_filter)
  have imp: "\<And>r. ?P r \<Longrightarrow> ?Q r" by blast
  from sum_filter_mono[of rows ?Q cc0 ?P, OF assms imp]
  show ?thesis unfolding eq success_customers_def .
qed

lemma insights_concentration:
  "concentrationPercent (fst (insights eng mb uid rows))
     = concentration (top3_customers eng uid rows) (success_customers uid rows)"
  by (simp add: insights_def Let_def customersInTop3_rows totalCustomers_rows split: prod.splits)

lemma concentration_error:
  assumes t: "0 \<le> t" and ts: "t \<le> s" and s: "0 < s"
  shows "\<bar>float64 (float64 (of_int t / of_int s) * 100) - 100 * of_int t / of_int s\<bar>
           \<le> 201 / 2 ^ 53"
proof -
  define c :: real where "c = 1 / 2 ^ 53"
  have c0: "0 \<le> c" and c1: "c \<le> 1 / 100" unfolding c_def by simp_all
  define x :: real where "x = of_int t / of_int s"
  define x1 where "x1 = float64 x"
  define z where "z = x1 * 100"
  define y where "y = float64 z"
  have x0: "0 \<le> x" and x1': "x \<le> 1" using t ts s unfolding x_def by simp_all
  have "\<bar>x1 - x\<bar> \<le> \<bar>x\<bar> / 2 ^ 53" unfolding x1_def by (rule float64_error)
  then have e1: "\<bar>x1 - x\<bar> \<le> x * c" using x0 by (simp add: c_def)
  have "x * c \<le> 1 * c" using x1' c0 by (rule mult_right_mono)
  with e1 have e1': "\<bar>x1 - x\<bar> \<le> c" by simp
  have "x * c \<le> x * 1" using c1 x0 by (intro mult_left_mono) simp_all
  with e1 have x10: "0 \<le> x1" by linarith
  have z0: "0 \<le> z" using x10 unfolding z_def by simp
  have z1: "z \<le> 101" using e1' x1' c1 unfolding z_def by linarith
  have "\<bar>y - z\<bar> \<le> \<bar>z\<bar> / 2 ^ 53" unfolding y_def by (rule float64_error)
  then have e2: "\<bar>y - z\<bar> \<le> z * c" using z0 by (simp add: c_def)
  have "z * c \<le> 101 * c" using z1 c0 by (rule mult_right_mono)
  with e2 have e2': "\<bar>y - z\<bar> \<le> 101 * c" by simp
  have "\<bar>z - 100 * x\<bar> \<le> 100 * c" using e1' unfolding z_def by linarith
  with e2' have "\<bar>y - 100 * x\<bar> \<le> 201 * c" by linarith
  then show ?thesis by (simp add: y_def z_def x1_def x_def c_def)
qed

lemma concentration_range:
  assumes t: "0 \<le> t" and ts: "t \<le> s" and s: "0 < s"
  shows "0 \<le> concentration t s \<and> concentration t s \<le> 100"
proof -
  define y where "y = float64 (float64 (of_int t / of_int s) * 100)"
  define p :: real where "p = 100 * of_int t / of_int s"
  have e: "\<bar>y - p\<bar> \<le> 201 / 2 ^ 53"
    unfolding y_def p_def by (rule concentration_error[OF assms])
  have p0: "0 \<le> p" using t s unfolding p_def by simp
  have "of_int t / (of_int s :: real) \<le> 1" using ts s by simp
  then have p1: "p \<le> 100" unfolding p_def by simp
  have d: "(201 :: real) / 2 ^ 53 \<le> 1 / 4" by simp
  have c: "concentration t s = \<lfloor>y + 1 / 2\<rfloor>"
    using s by (simp add: concentration_def js_round_def y_def)
  have "0 \<le> y + 1 / 2" using e p0 d by linarith
  then have lo: "0 \<le> \<lfloor>y + 1 / 2\<rfloor>" by simp
  have "y + 1 / 2 < 101" using e p1 d by linarith
  then have "\<lfloor>y + 1 / 2\<rfloor> < 101" by (simp add: floor_less_iff)
  with lo show ?thesis unfolding c by simp
qed

lemma concentration_exact:
  assumes t: "0 \<le> t" and ts: "t \<le> s" and s: "0 < s" and big: "s \<le> 2 ^ 44"
  shows "concentration t s = round_half_up (100 * of_int t / of_int s)
     \<or> (2 * s dvd 200 * t + s
         \<and> concentration t s = round_half_up (100 * of_int t / of_int s) - 1)"
proof -
  define y where "y = float64 (float64 (of_int t / of_int s) * 100)"
  define p :: real where "p = 100 * of_int t / of_int s"
  define N where "N = 200 * t + s"
  define D where "D = 2 * s"
  define n where "n = N div D"
  define r where "r = N mod D"
  have Dpos: "0 < D" using s unfolding D_def by simp
  have e: "\<bar>y - p\<bar> \<le> 201 / 2 ^ 53"
    unfolding y_def p_def by (rule concentration_error[OF t ts s])
  have c: "concentration t s = \<lfloor>y + 1 / 2\<rfloor>"
    using s by (simp add: concentration_def js_round_def y_def)
  have ph: "p + 1 / 2 = of_int N / of_int D"
    using s unfolding p_def N_def D_def by (simp add: field_simps)
  have rh: "round_half_up p = n"
    unfolding round_half_up_def ph n_def by (rule floor_divide_of_int_eq)
  have r0: "0 \<le> r" and rD: "r < D" using Dpos unfolding r_def by simp_all
  have "N = D * n + r" unfolding n_def r_def by simp
  then have "(of_int N :: real) = of_int D * of_int n + of_int r" by (metis of_int_add of_int_mult)
  then have frac: "p + 1 / 2 = of_int n + of_int r / of_int D"
    unfolding ph using Dpos by (simp add: field_simps)
  have Dbig: "(of_int D :: real) \<le> 2 ^ 45"
  proof -
    have "D \<le> 2 ^ 45" using big unfolding D_def by simp
    then have "(of_int D :: real) \<le> of_int (2 ^ 45)" by (simp only: of_int_le_iff)
    then show ?thesis by simp
  qed
  have rD': "(of_int D :: real) > 0" using Dpos by simp
  have inv: "1 / 2 ^ 45 \<le> 1 / (of_int D :: real)"
    using Dbig rD' by (simp add: frac_le)
  show ?thesis
  proof (cases "r = 0")
    case True
    then have dv: "D dvd N" unfolding r_def by (simp add: dvd_eq_mod_eq_0)
    from True frac have pn: "p + 1 / 2 = of_int n" by simp
    have d: "(201 :: real) / 2 ^ 53 \<le> 1 / 4" by simp
    show ?thesis
    proof (cases "of_int n \<le> y + 1 / 2")
      case True
      moreover have "y + 1 / 2 < of_int n + 1" using e pn d by linarith
      ultimately have "\<lfloor>y + 1 / 2\<rfloor> = n" by (simp add: floor_eq_iff)
      then show ?thesis unfolding c p_def[symmetric] rh by simp
    next
      case False
      then have "y + 1 / 2 < of_int (n - 1) + 1" by simp
      moreover have "of_int (n - 1) \<le> y + 1 / 2"
      proof -
        have "of_int n - 1 \<le> y + 1 / 2" using e pn d by linarith
        then show ?thesis by simp
      qed
      ultimately have "\<lfloor>y + 1 / 2\<rfloor> = n - 1" by (simp only: floor_eq_iff)
      with dv show ?thesis unfolding c p_def[symmetric] rh N_def D_def by simp
    qed
  next
    case False
    with r0 have "1 \<le> r" by simp
    then have r1: "(1 :: real) \<le> of_int r" by simp
    have rD1: "of_int r \<le> (of_int D :: real) - 1"
    proof -
      from rD have "r \<le> D - 1" by simp
      then have "(of_int r :: real) \<le> of_int (D - 1)" by (simp only: of_int_le_iff)
      then show ?thesis by simp
    qed
    have lo: "1 / of_int D \<le> of_int r / (of_int D :: real)"
      using r1 rD' by (simp add: divide_right_mono)
    have "of_int r / (of_int D :: real) \<le> (of_int D - 1) / of_int D"
      using rD1 rD' by (simp add: divide_right_mono)
    also have "\<dots> = 1 - 1 / of_int D" using rD' by (simp add: field_simps)
    finally have hi: "of_int r / (of_int D :: real) \<le> 1 - 1 / of_int D" .
    have d: "(201 :: real) / 2 ^ 53 < 1 / 2 ^ 45" by simp
    have "of_int n \<le> y + 1 / 2" using e frac lo inv d by linarith
    moreover have "y + 1 / 2 < of_int n + 1" using e frac hi inv d by linarith
    ultimately have "\<lfloor>y + 1 / 2\<rfloor> = n" by (simp add: floor_eq_iff)
    then show ?thesis unfolding c p_def[symmetric] rh by simp
  qed
qed

lemma concentration_nonpositive: "s \<le> 0 \<Longrightarrow> concentration t s = 0"
  by (simp add: concentration_def)

lemma counted_grid:
  "grid_cells 7 (counted_rows a d) =
    [\<lparr>cell_lat = 10, cell_lng = 20, count = 2, center_lat = 10, center_lng = 20, total_customers = a\<rparr>,
     \<lparr>cell_lat = 21 / 2, cell_lng = 41 / 2, count = 2, center_lat = 21 / 2, center_lng = 41 / 2, total_customers = 0\<rparr>,
     \<lparr>cell_lat = 11, cell_lng = 21, count = 2, center_lat = 11, center_lng = 21, total_customers = 0\<rparr>,
     \<lparr>cell_lat = 1003 / 100, cell_lng = 20, count = 1, center_lat = 321 / 32, center_lng = 20, total_customers = d\<rparr>]"
  by (simp add: grid_cells_def geocoded_def counted_rows_def geocoded_row_fields sample_coords
      sample_doubles agg_step_def agg_init_def agg_trans_def agg_final_def del: not_None_eq)

lemma counted_top3: "top3_customers sample_engine 7 (counted_rows a d) = a"
proof -
  have "denseAreasResult sample_engine 7 (counted_rows a d) = take 3 (grid_cells 7 (counted_rows a d))"
    by (simp add: denseAreasResult_def sample_engine_fields order_by_arrival_0 counted_grid)
  then have "customersInTop3 (denseAreasResult sample_engine 7 (counted_rows a d)) = a"
    by (simp add: counted_grid customersInTop3_def)
  then show ?thesis by (simp only: customersInTop3_rows)
qed

lemma counted_success: "success_customers 7 (counted_rows a d) = a + d"
  by (simp add: success_customers_def counted_rows_def geocoded_row_fields cc0_def)

lemma sample_customers:
  "top3_customers sample_engine 7 sample_rows = 20" "success_customers 7 sample_rows = 30"
  "\<forall>r \<in> set sample_rows. upload_id r = 7 \<and> geocode_status r = Success \<longrightarrow> 0 \<le> cc0 r"
proof -
  have "customersInTop3 (denseAreasResult sample_engine 7 sample_rows) = 20"
    by (simp add: sample_dense customersInTop3_def)
  then show "top3_customers sample_engine 7 sample_rows = 20" by (simp only: customersInTop3_rows)
  show "success_customers 7 sample_rows = 30"
    by (simp add: success_customers_def sample_rows_def geocoded_row_fields cc0_def)
  show "\<forall>r \<in> set sample_rows. upload_id r = 7 \<and> geocode_status r = Success \<longrightarrow> 0 \<le> cc0 r"
    by (simp add: sample_rows_def geocoded_row_fields cc0_def)
qed

lemma concentration_values:
  "concentration 29 200 = 14" "concentration 10 5 = 200"
  by (simp_all add: concentration_def js_round_def float_eval)

section \<open>Claims about the aggregation\<close>

lemma example_cell:
  "hd (grid_cells 7 example_points) \<in> set (grid_cells 7 example_points)
   \<and> grid_cells 7 example_points = [hd (grid_cells 7 example_points)]
   \<and> cell_key (hd (grid_cells 7 example_points)) = (3777 / 100, - (6121 / 50))
   \<and> count (hd (grid_cells 7 example_points)) = 2
   \<and> total_customers (hd (grid_cells 7 example_points)) = 4"
proof -
  from example_grid obtain c where c: "grid_cells 7 example_points = [c]"
    and "(cell_key c, count c, total_customers c) = ((3777 / 100, - (6121 / 50)), 2, 4)"
    by (auto simp: map_eq_Cons_conv)
  then show ?thesis by simp
qed

lemma tenth_mean:
  "mean (map (\<lambda>r. the (lat r)) tenth_rows) = 3602879701896397 / 36028797018963968"
  by (simp add: mean_def tenth_rows_def geocoded_row_fields tenth_doubles)

text \<open>
  C3, as the code has it. The aggregation groups the geocoded rows of an upload by
  latitude and longitude rounded to two decimals: every row is a member of exactly one
  cell, the key of a cell is the rounded coordinates of its members, and two rows are in
  the same cell if and only if their rounded latitudes and longitudes agree. The rounded
  coordinate is a multiple of 0.01 within 0.005 of the coordinate as the cast to numeric
  reads it, that is, to 15 significant digits. The count of a cell is the number of its
  members, its customer total the sum of their customer counts with a missing one as 0.
  Its centre is the mean of their unrounded coordinates as \<open>AVG\<close> computes it in double
  arithmetic: the coordinates are added in the order of the scan, each addition rounded,
  and the sum is divided by the count and rounded. It differs from the exact mean by at
  most \<open>(1 + 2\<^sup>-\<^sup>5\<^sup>3)\<^sup>n\<^sup>+\<^sup>1 - 1\<close> times the mean magnitude of the \<open>n\<close> coordinates. The points
  (37.774901, -122.419412) and (37.774888, -122.419399) fall into the one cell
  "37.77,-122.42".
\<close>
theorem grid_cells_group_rows_by_rounded_coordinates:
  "(\<forall>r \<in> set (geocoded uid rows).
       \<exists>!c. c \<in> set (grid_cells uid rows) \<and> r \<in> set (cell_rows uid rows c))
   \<and> (\<forall>c \<in> set (grid_cells uid rows). \<forall>r \<in> set (cell_rows uid rows c).
         cell_lat c = cell_coord (the (lat r)) \<and> cell_lng c = cell_coord (the (lng r)))
   \<and> (\<forall>c1 \<in> set (grid_cells uid rows). \<forall>c2 \<in> set (grid_cells uid rows).
       \<forall>r1 \<in> set (cell_rows uid rows c1). \<forall>r2 \<in> set (cell_rows uid rows c2).
         c1 = c2 \<longleftrightarrow>
           cell_coord (the (lat r1)) = cell_coord (the (lat r2))
           \<and> cell_coord (the (lng r1)) = cell_coord (the (lng r2)))
   \<and> (\<forall>x. \<exists>m::int. cell_coord x = of_int m / 100
           \<and> \<bar>of_int m / 100 - float8_numeric x\<bar> \<le> 1 / 200
           \<and> \<bar>of_int m / 100 - x\<bar> \<le> 1 / 200 + \<bar>x\<bar> / (2 * 10 ^ 14))
   \<and> (\<forall>c \<in> set (grid_cells uid rows).
         cell_rows uid rows c \<noteq> []
         \<and> count c = length (cell_rows uid rows c)
         \<and> center_lat c = float_mean (map (\<lambda>r. the (lat r)) (cell_rows uid rows c))
         \<and> center_lng c = float_mean (map (\<lambda>r. the (lng r)) (cell_rows uid rows c))
         \<and> \<bar>center_lat c - mean (map (\<lambda>r. the (lat r)) (cell_rows uid rows c))\<bar>
               \<le> ((1 + 1 / 2 ^ 53) ^ (count c + 1) - 1)
                   * mean (map (\<lambda>r. \<bar>the (lat r)\<bar>) (cell_rows uid rows c))
         \<and> \<bar>center_lng c - mean (map (\<lambda>r. the (lng r)) (cell_rows uid rows c))\<bar>
               \<le> ((1 + 1 / 2 ^ 53) ^ (count c + 1) - 1)
                   * mean (map (\<lambda>r. \<bar>the (lng r)\<bar>) (cell_rows uid rows c))
         \<and> total_customers c = sum_list (map cc0 (cell_rows uid rows c)))
   \<and> map row_key example_points = [(3777 / 100, - (6121 / 50)), (3777 / 100, - (6121 / 50))]
   \<and> map cell_id (grid_cells 7 example_points) = [''37.77,-122.42'']"
proof (intro conjI ballI allI)
  fix r assume "r \<in> set (geocoded uid rows)"
  then show "\<exists>!c. c \<in> set (grid_cells uid rows) \<and> r \<in> set (cell_rows uid rows c)"
    by (rule row_has_cell)
next
  fix c r assume "r \<in> set (cell_rows uid rows c)"
  then have k: "row_key r = cell_key c" by (simp add: mem_cell_rows)
  from k show "cell_lat c = cell_coord (the (lat r))" by (simp add: row_key_def cell_key_def)
  from k show "cell_lng c = cell_coord (the (lng r))" by (simp add: row_key_def cell_key_def)
next
  fix c1 c2 r1 r2
  assume "c1 \<in> set (grid_cells uid rows)" "c2 \<in> set (grid_cells uid rows)"
    "r1 \<in> set (cell_rows uid rows c1)" "r2 \<in> set (cell_rows uid rows c2)"
  then show "c1 = c2 \<longleftrightarrow>
      cell_coord (the (lat r1)) = cell_coord (the (lat r2))
      \<and> cell_coord (the (lng r1)) = cell_coord (the (lng r2))"
    by (rule same_cell_iff)
next
  fix x show "\<exists>m::int. cell_coord x = of_int m / 100
           \<and> \<bar>of_int m / 100 - float8_numeric x\<bar> \<le> 1 / 200
           \<and> \<bar>of_int m / 100 - x\<bar> \<le> 1 / 200 + \<bar>x\<bar> / (2 * 10 ^ 14)"
    by (rule cell_coord_nearest)
next
  fix c assume c: "c \<in> set (grid_cells uid rows)"
  note f = grid_cell_contents[OF c]
  note e = grid_cell_center_error[OF c]
  show "cell_rows uid rows c \<noteq> []" using f by blast
  show "count c = length (cell_rows uid rows c)" using f by blast
  show "center_lat c = float_mean (map (\<lambda>r. the (lat r)) (cell_rows uid rows c))" using f by blast
  show "center_lng c = float_mean (map (\<lambda>r. the (lng r)) (cell_rows uid rows c))" using f by blast
  show "\<bar>center_lat c - mean (map (\<lambda>r. the (lat r)) (cell_rows uid rows c))\<bar>
               \<le> ((1 + 1 / 2 ^ 53) ^ (count c + 1) - 1)
                   * mean (map (\<lambda>r. \<bar>the (lat r)\<bar>) (cell_rows uid rows c))"
    using e by (rule conjunct1)
  show "\<bar>center_lng c - mean (map (\<lambda>r. the (lng r)) (cell_rows uid rows c))\<bar>
               \<le> ((1 + 1 / 2 ^ 53) ^ (count c + 1) - 1)
                   * mean (map (\<lambda>r. \<bar>the (lng r)\<bar>) (cell_rows uid rows c))"
    using e by (rule conjunct2)
  show "total_customers c = sum_list (map cc0 (cell_rows uid rows c))" using f by blast
next
  show "map row_key example_points = [(3777 / 100, - (6121 / 50)), (3777 / 100, - (6121 / 50))]"
    by (rule example_keys)
  have "map cell_id (grid_cells 7 example_points)
      = map (\<lambda>(k, n, t). numeric2_text (fst k) @ '','' @ numeric2_text (snd k))
          (map (\<lambda>c. (cell_key c, count c, total_customers c)) (grid_cells 7 example_points))"
    by (simp add: cell_id_def cell_key_def comp_def)
  then show "map cell_id (grid_cells 7 example_points) = [''37.77,-122.42'']"
    unfolding example_grid by (simp add: example_text)
qed

theorem grid_cells_group_rows_by_rounded_coordinates_witness:
  "hd (grid_cells 7 example_points) \<in> set (grid_cells 7 example_points)
   \<and> cell_rows 7 example_points (hd (grid_cells 7 example_points)) = example_points
   \<and> count (hd (grid_cells 7 example_points)) = length example_points
   \<and> center_lat (hd (grid_cells 7 example_points))
        = float_mean (map (\<lambda>r. the (lat r)) example_points)
   \<and> \<bar>center_lat (hd (grid_cells 7 example_points)) - mean (map (\<lambda>r. the (lat r)) example_points)\<bar>
        \<le> ((1 + 1 / 2 ^ 53) ^ 3 - 1) * mean (map (\<lambda>r. \<bar>the (lat r)\<bar>) example_points)
   \<and> total_customers (hd (grid_cells 7 example_points)) = sum_list (map cc0 example_points)
   \<and> hd example_points \<in> set (cell_rows 7 example_points (hd (grid_cells 7 example_points)))
   \<and> cell_lat (hd (grid_cells 7 example_points)) = cell_coord (the (lat (hd example_points)))
   \<and> cell_lat (hd (grid_cells 7 example_points)) = 3777 / 100"
proof -
  let ?c = "hd (grid_cells 7 example_points)"
  have mem: "?c \<in> set (grid_cells 7 example_points)" using example_cell by blast
  have key: "cell_key ?c = (3777 / 100, - (6121 / 50))" using example_cell by blast
  have n: "count ?c = 2" using example_cell by blast
  have rows: "cell_rows 7 example_points ?c = example_points"
    using key by (rule example_cell_rows)
  have r: "hd example_points \<in> set (cell_rows 7 example_points ?c)"
    unfolding rows by (simp add: example_points_def)
  note all = grid_cells_group_rows_by_rounded_coordinates[of 7 example_points]
  note keys = all[THEN conjunct2, THEN conjunct1]
  note contents = all[THEN conjunct2, THEN conjunct2, THEN conjunct2, THEN conjunct2, THEN conjunct1]
  from bspec[OF bspec[OF keys mem] r]
  have k: "cell_lat ?c = cell_coord (the (lat (hd example_points)))" by blast
  have l: "cell_lat ?c = 3777 / 100" using key by (simp add: cell_key_def)
  have p: "count ?c + 1 = 3" using n by simp
  note f = bspec[OF contents mem, unfolded rows]
  from f have a: "count ?c = length example_points" by blast
  from f have b: "center_lat ?c = float_mean (map (\<lambda>r. the (lat r)) example_points)" by blast
  from f have "\<bar>center_lat ?c - mean (map (\<lambda>r. the (lat r)) example_points)\<bar>
      \<le> ((1 + 1 / 2 ^ 53) ^ (count ?c + 1) - 1) * mean (map (\<lambda>r. \<bar>the (lat r)\<bar>) example_points)"
    by blast
  then have e: "\<bar>center_lat ?c - mean (map (\<lambda>r. the (lat r)) example_points)\<bar>
      \<le> ((1 + 1 / 2 ^ 53) ^ 3 - 1) * mean (map (\<lambda>r. \<bar>the (lat r)\<bar>) example_points)"
    unfolding p .
  from f have t: "total_customers ?c = sum_list (map cc0 example_points)" by blast
  from mem rows a b e t r k l show ?thesis by blast
qed

theorem centroid_not_exact_mean_counterexample:
  "grid_cells 7 tenth_rows =
     [\<lparr>cell_lat = 1 / 10, cell_lng = 20, count = 3,
        center_lat = 7205759403792795 / 72057594037927936, center_lng = 20,
        total_customers = 0\<rparr>]
   \<and> cell_rows 7 tenth_rows (hd (grid_cells 7 tenth_rows)) = tenth_rows
   \<and> map (\<lambda>r. the (lat r)) tenth_rows
        = [3602879701896397 / 36028797018963968, 3602879701896397 / 36028797018963968,
           3602879701896397 / 36028797018963968]
   \<and> mean (map (\<lambda>r. the (lat r)) (cell_rows 7 tenth_rows (hd (grid_cells 7 tenth_rows))))
        = 3602879701896397 / 36028797018963968
   \<and> center_lat (hd (grid_cells 7 tenth_rows))
        \<noteq> mean (map (\<lambda>r. the (lat r)) (cell_rows 7 tenth_rows (hd (grid_cells 7 tenth_rows))))"
proof -
  have key: "cell_key (hd (grid_cells 7 tenth_rows)) = (1 / 10, 20)"
    by (simp add: tenth_grid cell_key_def)
  have rows: "cell_rows 7 tenth_rows (hd (grid_cells 7 tenth_rows)) = tenth_rows"
    using key by (rule tenth_cell_rows)
  have lats: "map (\<lambda>r. the (lat r)) tenth_rows
        = [3602879701896397 / 36028797018963968, 3602879701896397 / 36028797018963968,
           3602879701896397 / 36028797018963968]"
    by (simp add: tenth_rows_def geocoded_row_fields tenth_doubles)
  have c: "center_lat (hd (grid_cells 7 tenth_rows)) = 7205759403792795 / 72057594037927936"
    by (simp add: tenth_grid)
  show ?thesis
    unfolding rows tenth_mean c by (simp add: tenth_grid lats)
qed

section \<open>Claims about the insights\<close>

text \<open>
  C9. Every grid cell of the aggregation has at least one member row, hence a count of at
  least 1; so every whitespace area of the report, whose count is at most 1, has count
  exactly 1.
\<close>
theorem whitespace_count_exactly_one:
  "(\<forall>c \<in> set (grid_cells uid rows). cell_rows uid rows c \<noteq> [] \<and> 1 \<le> count c)
   \<and> (\<forall>w \<in> set (whiteSpaceAreas (fst (insights eng mb uid rows))). areaCount w = 1)"
proof (intro conjI ballI)
  fix c assume "c \<in> set (grid_cells uid rows)"
  then show "cell_rows uid rows c \<noteq> []" using grid_cell_contents by blast
next
  fix c assume "c \<in> set (grid_cells uid rows)"
  then show "1 \<le> count c" by (rule grid_cell_count_pos)
next
  fix w assume "w \<in> set (whiteSpaceAreas (fst (insights eng mb uid rows)))"
  then have "(cellId w, areaCount w, center w, distanceKm w)
      \<in> set (map (\<lambda>w. (cellId w, areaCount w, center w, distanceKm w))
               (whiteSpaceAreas (fst (insights eng mb uid rows))))"
    by auto
  then obtain row where row: "row \<in> set (whiteSpaceQuery eng uid rows)"
    and "areaCount w = count (fst row)"
    unfolding areas_of_query by auto
  then show "areaCount w = 1" using query_row_facts[OF row] by simp
qed

theorem whitespace_count_exactly_one_witness:
  "hd (whiteSpaceAreas (fst (insights sample_engine no_mapbox 7 sample_rows)))
     \<in> set (whiteSpaceAreas (fst (insights sample_engine no_mapbox 7 sample_rows)))
   \<and> areaCount (hd (whiteSpaceAreas (fst (insights sample_engine no_mapbox 7 sample_rows)))) = 1
   \<and> cellId (hd (whiteSpaceAreas (fst (insights sample_engine no_mapbox 7 sample_rows))))
        = ''10.01,20.00''
   \<and> hd (grid_cells 7 sample_rows) \<in> set (grid_cells 7 sample_rows)
   \<and> 1 \<le> count (hd (grid_cells 7 sample_rows))"
proof -
  let ?ws = "whiteSpaceAreas (fst (insights sample_engine no_mapbox 7 sample_rows))"
  have w: "hd ?ws \<in> set ?ws" by (simp add: sample_areas)
  have c: "hd (grid_cells 7 sample_rows) \<in> set (grid_cells 7 sample_rows)"
    by (simp add: sample_grid)
  have i: "cellId (hd ?ws) = ''10.01,20.00''" by (simp add: sample_areas)
  note all = whitespace_count_exactly_one[of 7 sample_rows sample_engine no_mapbox]
  from bspec[OF all[THEN conjunct2] w] bspec[OF all[THEN conjunct1] c] w c i
  show ?thesis by simp
qed



text \<open>
  C10. The \<open>distanceKm\<close> of a whitespace area is the distance of its row of the whitespace
  query rounded to one decimal: the double nearest to \<open>n / 10\<close> for an integer \<open>n\<close>, where
  \<open>n / 10\<close> is within 0.05 of the distance, up to the rounding of the product by 10. The
  rows were filtered at 3 km and sorted on the unrounded distance, and every reported
  distance is at most 3.0. On the sample data two areas report 1.1 km, in the order of
  their unrounded 1.09375 and 1.125 km, and one reports 3.0 km for an unrounded 2.96875
  km.
\<close>
theorem distanceKm_rounded_after_ranking:
  "map distanceKm (whiteSpaceAreas (fst (insights eng mb uid rows)))
     = map (\<lambda>row. round1 (snd row)) (whiteSpaceQuery eng uid rows)
   \<and> (\<forall>d. \<exists>n::int. round1 d = float64 (of_int n / 10)
                   \<and> \<bar>of_int n / 10 - d\<bar> \<le> 1 / 20 + \<bar>d\<bar> / 2 ^ 53)
   \<and> sorted (map snd (whiteSpaceQuery eng uid rows))
   \<and> (\<forall>row \<in> set (whiteSpaceQuery eng uid rows). snd row \<le> 3 \<and> round1 (snd row) \<le> 3)
   \<and> map snd (whiteSpaceQuery sample_engine 7 sample_rows) = [35 / 32, 9 / 8, 95 / 32]
   \<and> map distanceKm (whiteSpaceAreas (fst (insights sample_engine no_mapbox 7 sample_rows)))
        = [float64 (11 / 10), float64 (11 / 10), 3]"
proof (intro conjI ballI allI)
  show "map distanceKm (whiteSpaceAreas (fst (insights eng mb uid rows)))
     = map (\<lambda>row. round1 (snd row)) (whiteSpaceQuery eng uid rows)"
    using arg_cong[OF areas_of_query[of eng mb uid rows], of "map (\<lambda>(a, b, c, d). d)"]
    by (simp add: comp_def)
  show "sorted (map snd (whiteSpaceQuery eng uid rows))" by (rule query_sorted)
  show "map snd (whiteSpaceQuery sample_engine 7 sample_rows) = [35 / 32, 9 / 8, 95 / 32]"
    by (simp add: sample_query)
  show "map distanceKm (whiteSpaceAreas (fst (insights sample_engine no_mapbox 7 sample_rows)))
        = [float64 (11 / 10), float64 (11 / 10), 3]"
    by (simp add: sample_areas)
next
  fix d show "\<exists>n::int. round1 d = float64 (of_int n / 10)
      \<and> \<bar>of_int n / 10 - d\<bar> \<le> 1 / 20 + \<bar>d\<bar> / 2 ^ 53"
    by (rule round1_tenth)
next
  fix row assume row: "row \<in> set (whiteSpaceQuery eng uid rows)"
  then show le: "snd row \<le> 3" using query_row_facts by blast
  from round1_le_3[OF le] show "round1 (snd row) \<le> 3" .
qed

theorem distanceKm_rounded_after_ranking_witness:
  "hd (whiteSpaceQuery sample_engine 7 sample_rows) \<in> set (whiteSpaceQuery sample_engine 7 sample_rows)
   \<and> snd (hd (whiteSpaceQuery sample_engine 7 sample_rows)) = 35 / 32
   \<and> round1 (35 / 32) \<le> 3
   \<and> map distanceKm (whiteSpaceAreas (fst (insights sample_engine no_mapbox 7 sample_rows)))
        = map (\<lambda>row. round1 (snd row)) (whiteSpaceQuery sample_engine 7 sample_rows)"
proof -
  let ?q = "whiteSpaceQuery sample_engine 7 sample_rows"
  have mem: "hd ?q \<in> set ?q" by (simp add: sample_query)
  have d: "snd (hd ?q) = 35 / 32" by (simp add: sample_query)
  note all = distanceKm_rounded_after_ranking[of sample_engine no_mapbox 7 sample_rows]
  note each = all[THEN conjunct2, THEN conjunct2, THEN conjunct2, THEN conjunct1]
  from bspec[OF each mem] mem d all[THEN conjunct1] show ?thesis by simp
qed

text \<open>
  C2, as the code has it. With T the customer counts (a missing one as 0) of the geocoded
  rows in the dense cells that the report lists, which are a choice of the three grid
  cells of highest count, and S those of all rows of the upload with status success:
  \<open>concentrationPercent\<close> is 0 when S is zero or negative. If no customer count of these
  rows is negative, it lies between 0 and 100, and, for S positive and up to \<open>2\<^sup>4\<^sup>4\<close>, it is
  100 T / S rounded half up wherever 100 T / S is not exactly halfway between two
  integers.
\<close>
theorem concentration_percent_value:
  "top3_by_count (grid_cells uid rows) (denseAreasResult eng uid rows)
   \<and> map cellId (topDenseAreas (fst (insights eng mb uid rows)))
        = map cell_id (denseAreasResult eng uid rows)
   \<and> (success_customers uid rows \<le> 0 \<longrightarrow> concentrationPercent (fst (insights eng mb uid rows)) = 0)
   \<and> ((\<forall>r \<in> set rows. upload_id r = uid \<and> geocode_status r = Success \<longrightarrow> 0 \<le> cc0 r) \<longrightarrow>
         0 \<le> concentrationPercent (fst (insights eng mb uid rows))
         \<and> concentrationPercent (fst (insights eng mb uid rows)) \<le> 100
         \<and> (0 < success_customers uid rows \<and> success_customers uid rows \<le> 2 ^ 44
             \<and> \<not> 2 * success_customers uid rows
                   dvd 200 * top3_customers eng uid rows + success_customers uid rows
             \<longrightarrow> concentrationPercent (fst (insights eng mb uid rows))
                   = round_half_up (100 * of_int (top3_customers eng uid rows)
                                      / of_int (success_customers uid rows))))"
proof (intro conjI impI)
  show "top3_by_count (grid_cells uid rows) (denseAreasResult eng uid rows)"
    by (rule denseAreasResult_top3)
  show "map cellId (topDenseAreas (fst (insights eng mb uid rows)))
        = map cell_id (denseAreasResult eng uid rows)"
    using arg_cong[OF top_of_result[of eng mb uid rows], of "map fst"] by (simp add: comp_def)
next
  assume "success_customers uid rows \<le> 0"
  then show "concentrationPercent (fst (insights eng mb uid rows)) = 0"
    by (simp add: insights_concentration concentration_nonpositive)
next
  assume nn: "\<forall>r \<in> set rows. upload_id r = uid \<and> geocode_status r = Success \<longrightarrow> 0 \<le> cc0 r"
  note ts = top3_le_success[OF nn, of eng]
  have "0 \<le> concentration (top3_customers eng uid rows) (success_customers uid rows)
      \<and> concentration (top3_customers eng uid rows) (success_customers uid rows) \<le> 100"
  proof (cases "0 < success_customers uid rows")
    case True
    from ts True show ?thesis by (intro concentration_range) simp_all
  next
    case False
    then show ?thesis by (simp add: concentration_nonpositive)
  qed
  then show "0 \<le> concentrationPercent (fst (insights eng mb uid rows))"
    and "concentrationPercent (fst (insights eng mb uid rows)) \<le> 100"
    by (simp_all add: insights_concentration)
  {
    assume a: "0 < success_customers uid rows \<and> success_customers uid rows \<le> 2 ^ 44
        \<and> \<not> 2 * success_customers uid rows
              dvd 200 * top3_customers eng uid rows + success_customers uid rows"
    then have "concentration (top3_customers eng uid rows) (success_customers uid rows)
          = round_half_up (100 * of_int (top3_customers eng uid rows) / of_int (success_customers uid rows))
        \<or> (2 * success_customers uid rows
              dvd 200 * top3_customers eng uid rows + success_customers uid rows
           \<and> concentration (top3_customers eng uid rows) (success_customers uid rows)
               = round_half_up (100 * of_int (top3_customers eng uid rows)
                                  / of_int (success_customers uid rows)) - 1)"
      using ts by (intro concentration_exact) simp_all
    with a have "concentration (top3_customers eng uid rows) (success_customers uid rows)
          = round_half_up (100 * of_int (top3_customers eng uid rows) / of_int (success_customers uid rows))"
      by blast
    then show "concentrationPercent (fst (insights eng mb uid rows))
                 = round_half_up (100 * of_int (top3_customers eng uid rows)
                                    / of_int (success_customers uid rows))"
      by (simp only: insights_concentration)
  }
qed

theorem concentration_percent_value_witness:
  "top3_customers sample_engine 7 sample_rows = 20 \<and> success_customers 7 sample_rows = 30
   \<and> round_half_up (100 * 20 / 30) = 67
   \<and> \<not> (2 * 30 dvd 200 * 20 + (30 :: int))
   \<and> map count (denseAreasResult sample_engine 7 sample_rows) = [2, 2, 2]
   \<and> concentrationPercent (fst (insights sample_engine no_mapbox 7 sample_rows)) = 67"
proof -
  note t = concentration_percent_value[of 7 sample_rows sample_engine no_mapbox]
  note nn = sample_customers(3)
  have s: "0 < success_customers 7 sample_rows \<and> success_customers 7 sample_rows \<le> 2 ^ 44
      \<and> \<not> 2 * success_customers 7 sample_rows
            dvd 200 * top3_customers sample_engine 7 sample_rows + success_customers 7 sample_rows"
    by (simp add: sample_customers)
  note exact = t[THEN conjunct2, THEN conjunct2, THEN conjunct2, THEN mp, OF nn, THEN conjunct2,
      THEN conjunct2, THEN mp, OF s]
  have r: "round_half_up (100 * 20 / 30) = 67" by (simp add: round_half_up_def)
  have nd: "\<not> (2 * 30 dvd 200 * 20 + (30 :: int))" by simp
  have n: "map count (denseAreasResult sample_engine 7 sample_rows) = [2, 2, 2]"
    by (simp add: sample_dense)
  from exact nd r n show ?thesis by (simp add: sample_customers)
qed

theorem concentration_percent_counterexample:
  "top3_customers sample_engine 7 (counted_rows 10 (- 5)) = 10
   \<and> success_customers 7 (counted_rows 10 (- 5)) = 5
   \<and> concentrationPercent (fst (insights sample_engine no_mapbox 7 (counted_rows 10 (- 5)))) = 200
   \<and> top3_customers sample_engine 7 (counted_rows (- 5) 0) = - 5
   \<and> success_customers 7 (counted_rows (- 5) 0) = - 5
   \<and> round_half_up (100 * (- 5) / (- 5)) = 100
   \<and> concentrationPercent (fst (insights sample_engine no_mapbox 7 (counted_rows (- 5) 0))) = 0"
  by (simp add: insights_concentration counted_top3 counted_success concentration_values
      round_half_up_def concentration_nonpositive)

section \<open>Claims about the geocoding pipeline\<close>

lemma refused_row_run:
  "resolver_calls (start_geocoding (refuse_row 72) sample_resolver 7 sample_store)
     = [pending_row 71 7 ''1 Main St'', pending_row 72 7 ''nowhere'']
   \<and> map geocode_status (upload_rows (after (start_geocoding (refuse_row 72) sample_resolver 7 sample_store)))
     = [Success, Pending, Failed]
   \<and> status_writes (start_geocoding (refuse_row 72) sample_resolver 7 sample_store)
     = [Processing, UploadFailed]
   \<and> uploads (after (start_geocoding (refuse_row 72) sample_resolver 7 sample_store)) 7
     = Some UploadFailed
   \<and> thrown (start_geocoding (refuse_row 72) sample_resolver 7 sample_store)"
  by (simp add: start_geocoding_def caught_def Let_def sample_store_def pending_rows_def
      set_status_def geocode_batches.simps batchSize_def process_row_def refuse_row_def
      pending_row_def failed_row_def sample_resolver_def succeeded_def update_row_def)

lemma eleven_run:
  "length (pending_rows 5 eleven_store) = 11
   \<and> pending_row 11 5 ''1 Main St'' \<in> set (pending_rows 5 eleven_store)
   \<and> map row_id (resolver_calls (start_geocoding (refuse_row 1) sample_resolver 5 eleven_store))
     = [1, 2, 3, 4, 5, 6, 7, 8, 9, 10]
   \<and> uploads (after (start_geocoding (refuse_row 1) sample_resolver 5 eleven_store)) 5
     = Some UploadFailed"
  by (simp add: start_geocoding_def caught_def Let_def eleven_store_def pending_rows_def
      set_status_def geocode_batches.simps batchSize_def process_row_def refuse_row_def
      pending_row_def sample_resolver_def succeeded_def update_row_def)

text \<open>
  C4, as the code has it. A run of the pipeline on an existing upload that does not end in
  the \<open>catch\<close> branch of the handler, as is every run in which the store accepts every
  statement: with no pending row the status is set to processing and at once to done and
  the resolver is not called; otherwise the resolver is called for the pending rows, each
  once, in their order, and the final status is done if one of these calls succeeded and
  failed if none did. In every run the resolver is called for a number of whole batches of
  ten from the front of the pending rows, each of these rows once. A run that ends in the
  \<open>catch\<close> branch, because the store refused a statement, never writes done: it leaves the
  status failed if the store accepts that write, also when rows were geocoded
  successfully, and attempts no later batch.
\<close>
theorem geocoding_run_outcome:
  "uploads st uid \<noteq> None \<longrightarrow>
     ((\<forall>n q. \<not> refused n q) \<longrightarrow> \<not> thrown (start_geocoding refused g uid st))
     \<and> (\<not> thrown (start_geocoding refused g uid st) \<longrightarrow>
          (pending_rows uid st = [] \<longrightarrow>
             uploads (after (start_geocoding refused g uid st)) uid = Some Done
             \<and> status_writes (start_geocoding refused g uid st) = [Processing, Done]
             \<and> resolver_calls (start_geocoding refused g uid st) = [])
          \<and> (pending_rows uid st \<noteq> [] \<longrightarrow>
             resolver_calls (start_geocoding refused g uid st) = pending_rows uid st
             \<and> ((\<exists>r \<in> set (pending_rows uid st). succeeded (g r)) \<longrightarrow>
                   uploads (after (start_geocoding refused g uid st)) uid = Some Done)
             \<and> ((\<forall>r \<in> set (pending_rows uid st). \<not> succeeded (g r)) \<longrightarrow>
                   uploads (after (start_geocoding refused g uid st)) uid = Some UploadFailed)))
     \<and> (\<exists>k. resolver_calls (start_geocoding refused g uid st)
              = take (k * batchSize) (pending_rows uid st))
     \<and> (thrown (start_geocoding refused g uid st) \<longrightarrow>
          Done \<notin> set (status_writes (start_geocoding refused g uid st))
          \<and> status_writes (start_geocoding refused g uid st)
               \<in> {[], [UploadFailed], [Processing], [Processing, UploadFailed]})
     \<and> uploads (after (start_geocoding refused g uid st)) uid
          = (if status_writes (start_geocoding refused g uid st) = [] then uploads st uid
             else Some (last (status_writes (start_geocoding refused g uid st))))"
proof (intro impI conjI)
  assume "\<forall>n q. \<not> refused n q"
  then show "\<not> thrown (start_geocoding refused g uid st)" by (rule start_geocoding_accepted)
next
  assume ex: "uploads st uid \<noteq> None" and ok: "\<not> thrown (start_geocoding refused g uid st)"
    and none: "pending_rows uid st = []"
  note f = start_geocoding_completed[OF ex ok]
  note w = start_geocoding_writes[of refused g uid st, THEN conjunct2, THEN conjunct2, THEN mp, OF ex]
  from f none have s: "status_writes (start_geocoding refused g uid st) = [Processing, Done]"
    by simp
  then show "status_writes (start_geocoding refused g uid st) = [Processing, Done]" .
  from w s show "uploads (after (start_geocoding refused g uid st)) uid = Some Done" by simp
  from f none show "resolver_calls (start_geocoding refused g uid st) = []" by simp
next
  assume ex: "uploads st uid \<noteq> None" and ok: "\<not> thrown (start_geocoding refused g uid st)"
    and some: "pending_rows uid st \<noteq> []"
  note f = start_geocoding_completed[OF ex ok]
  note w = start_geocoding_writes[of refused g uid st, THEN conjunct2, THEN conjunct2, THEN mp, OF ex]
  from f show "resolver_calls (start_geocoding refused g uid st) = pending_rows uid st" by blast
  {
    assume "\<exists>r \<in> set (pending_rows uid st). succeeded (g r)"
    with f have "status_writes (start_geocoding refused g uid st) = [Processing, Done]" by simp
    with w show "uploads (after (start_geocoding refused g uid st)) uid = Some Done" by simp
  }
  {
    assume "\<forall>r \<in> set (pending_rows uid st). \<not> succeeded (g r)"
    with f some have "status_writes (start_geocoding refused g uid st) = [Processing, UploadFailed]"
      by simp
    with w show "uploads (after (start_geocoding refused g uid st)) uid = Some UploadFailed" by simp
  }
next
  show "\<exists>k. resolver_calls (start_geocoding refused g uid st)
              = take (k * batchSize) (pending_rows uid st)"
    by (rule start_geocoding_calls)
next
  assume t: "thrown (start_geocoding refused g uid st)"
  note w = start_geocoding_writes[of refused g uid st]
  from w t show d: "Done \<notin> set (status_writes (start_geocoding refused g uid st))" by blast
  from w have "status_writes (start_geocoding refused g uid st)
     \<in> {[], [UploadFailed], [Processing], [Processing, UploadFailed], [Processing, Done]}" by blast
  with d show "status_writes (start_geocoding refused g uid st)
               \<in> {[], [UploadFailed], [Processing], [Processing, UploadFailed]}" by auto
next
  assume ex: "uploads st uid \<noteq> None"
  from start_geocoding_writes[of refused g uid st, THEN conjunct2, THEN conjunct2, THEN mp, OF ex]
  show "uploads (after (start_geocoding refused g uid st)) uid
          = (if status_writes (start_geocoding refused g uid st) = [] then uploads st uid
             else Some (last (status_writes (start_geocoding refused g uid st))))" .
qed

theorem geocoding_run_outcome_witness:
  "uploads sample_store 9 \<noteq> None \<and> pending_rows 9 sample_store = []
   \<and> \<not> thrown (start_geocoding no_faults sample_resolver 9 sample_store)
   \<and> uploads (after (start_geocoding no_faults sample_resolver 9 sample_store)) 9 = Some Done
   \<and> resolver_calls (start_geocoding no_faults sample_resolver 9 sample_store) = []
   \<and> uploads sample_store 7 \<noteq> None
   \<and> pending_rows 7 sample_store = [pending_row 71 7 ''1 Main St'', pending_row 72 7 ''nowhere'']
   \<and> succeeded (sample_resolver (pending_row 71 7 ''1 Main St''))
   \<and> resolver_calls (start_geocoding no_faults sample_resolver 7 sample_store)
        = [pending_row 71 7 ''1 Main St'', pending_row 72 7 ''nowhere'']
   \<and> uploads (after (start_geocoding no_faults sample_resolver 7 sample_store)) 7 = Some Done
   \<and> uploads (after (start_geocoding no_faults failing_resolver 7 sample_store)) 7 = Some UploadFailed
   \<and> thrown (start_geocoding (refuse_row 72) sample_resolver 7 sample_store)
   \<and> Done \<notin> set (status_writes (start_geocoding (refuse_row 72) sample_resolver 7 sample_store))"
proof -
  have e9: "uploads sample_store 9 \<noteq> None" and e7: "uploads sample_store 7 \<noteq> None"
    by (simp_all add: sample_store_uploads)
  have p9: "pending_rows 9 sample_store = []" by (simp add: sample_store_pending)
  have p7: "pending_rows 7 sample_store \<noteq> []" by (simp add: sample_store_pending)
  have ok: "\<exists>r \<in> set (pending_rows 7 sample_store). succeeded (sample_resolver r)"
    by (simp add: sample_store_pending sample_resolver_results)
  have bad: "\<forall>r \<in> set (pending_rows 7 sample_store). \<not> succeeded (failing_resolver r)"
    by (simp add: sample_resolver_results)
  note a = geocoding_run_outcome[of sample_store 9 no_faults sample_resolver, THEN mp, OF e9]
  note b = geocoding_run_outcome[of sample_store 7 no_faults sample_resolver, THEN mp, OF e7]
  note c = geocoding_run_outcome[of sample_store 7 no_faults failing_resolver, THEN mp, OF e7]
  note d = geocoding_run_outcome[of sample_store 7 "refuse_row 72" sample_resolver, THEN mp, OF e7]
  note a1 = a[THEN conjunct1, THEN mp, OF no_faults_accepts]
  note b1 = b[THEN conjunct1, THEN mp, OF no_faults_accepts]
  note c1 = c[THEN conjunct1, THEN mp, OF no_faults_accepts]
  note a2 = a[THEN conjunct2, THEN conjunct1, THEN mp, OF a1, THEN conjunct1, THEN mp, OF p9]
  note b2 = b[THEN conjunct2, THEN conjunct1, THEN mp, OF b1, THEN conjunct2, THEN mp, OF p7]
  note c2 = c[THEN conjunct2, THEN conjunct1, THEN mp, OF c1, THEN conjunct2, THEN mp, OF p7]
  have t: "thrown (start_geocoding (refuse_row 72) sample_resolver 7 sample_store)"
    using refused_row_run by blast
  note d2 = d[THEN conjunct2, THEN conjunct2, THEN conjunct2, THEN conjunct1, THEN mp, OF t,
      THEN conjunct1]
  from b2 ok have done7: "uploads (after (start_geocoding no_faults sample_resolver 7 sample_store)) 7 = Some Done"
    by blast
  from c2 bad have failed7: "uploads (after (start_geocoding no_faults failing_resolver 7 sample_store)) 7 = Some UploadFailed"
    by blast
  from b2 have calls7: "resolver_calls (start_geocoding no_faults sample_resolver 7 sample_store)
      = [pending_row 71 7 ''1 Main St'', pending_row 72 7 ''nowhere'']"
    by (simp add: sample_store_pending)
  from a1 a2 calls7 done7 failed7 e9 e7 p9 t d2 sample_store_pending(1) sample_resolver_results(1)
  show ?thesis by blast
qed

theorem refused_update_fails_run_counterexample:
  "pending_rows 7 sample_store = [pending_row 71 7 ''1 Main St'', pending_row 72 7 ''nowhere'']
   \<and> succeeded (sample_resolver (pending_row 71 7 ''1 Main St''))
   \<and> resolver_calls (start_geocoding (refuse_row 72) sample_resolver 7 sample_store)
        = [pending_row 71 7 ''1 Main St'', pending_row 72 7 ''nowhere'']
   \<and> map geocode_status (upload_rows (after (start_geocoding (refuse_row 72) sample_resolver 7 sample_store)))
        = [Success, Pending, Failed]
   \<and> uploads (after (start_geocoding (refuse_row 72) sample_resolver 7 sample_store)) 7
        = Some UploadFailed
   \<and> uploads (after (start_geocoding (refuse_row 72) sample_resolver 7 sample_store)) 7
        \<noteq> Some Done
   \<and> length (pending_rows 5 eleven_store) = 11
   \<and> pending_row 11 5 ''1 Main St'' \<in> set (pending_rows 5 eleven_store)
   \<and> map row_id (resolver_calls (start_geocoding (refuse_row 1) sample_resolver 5 eleven_store))
        = [1, 2, 3, 4, 5, 6, 7, 8, 9, 10]
   \<and> pending_row 11 5 ''1 Main St''
        \<notin> set (resolver_calls (start_geocoding (refuse_row 1) sample_resolver 5 eleven_store))"
proof -
  have "row_id (pending_row 11 5 ''1 Main St'')
      \<notin> set (map row_id (resolver_calls (start_geocoding (refuse_row 1) sample_resolver 5 eleven_store)))"
    using eleven_run by (simp add: pending_row_def)
  then have "pending_row 11 5 ''1 Main St''
      \<notin> set (resolver_calls (start_geocoding (refuse_row 1) sample_resolver 5 eleven_store))"
    by auto
  with refused_row_run eleven_run sample_store_pending(1) sample_resolver_results(1)
  show ?thesis by simp
qed

text \<open>
  C5, as the code has it. The three queries leave the store as it is, and a trigger for an
  unknown upload does too. A trigger for an existing upload, whatever its status, writes
  processing and then one of done and failed, which is the status the run leaves, unless
  the store refuses a statement; the status of every other upload is untouched. So done
  and failed end every run, but the trigger does not read the status, and a further
  trigger takes an upload out of them. When the store refuses a statement the run ends in
  the \<open>catch\<close> branch, which writes failed if the store accepts that: the statuses written
  are then none, failed, processing, or processing and failed, and the upload keeps the
  last one written.
\<close>
theorem status_written_only_by_runs:
  "apply_operation (GetUpload uid) st = st
   \<and> apply_operation (GetPoints uid) st = st
   \<and> apply_operation (GetInsights eng mb uid) st = st
   \<and> (uploads st uid = None \<longrightarrow> apply_operation (StartGeocoding refused g uid) st = st)
   \<and> (\<forall>uid'. uid' \<noteq> uid \<longrightarrow>
         uploads (apply_operation (StartGeocoding refused g uid) st) uid' = uploads st uid')
   \<and> (uploads st uid \<noteq> None \<longrightarrow>
         ((\<forall>n q. \<not> refused n q) \<longrightarrow> \<not> thrown (start_geocoding refused g uid st))
         \<and> (\<not> thrown (start_geocoding refused g uid st) \<longrightarrow>
              (\<exists>s. (s = Done \<or> s = UploadFailed)
                   \<and> status_writes (start_geocoding refused g uid st) = [Processing, s]
                   \<and> uploads (apply_operation (StartGeocoding refused g uid) st) uid = Some s))
         \<and> status_writes (start_geocoding refused g uid st)
              \<in> {[], [UploadFailed], [Processing], [Processing, UploadFailed], [Processing, Done]}
         \<and> uploads (apply_operation (StartGeocoding refused g uid) st) uid
              = (if status_writes (start_geocoding refused g uid st) = [] then uploads st uid
                 else Some (last (status_writes (start_geocoding refused g uid st)))))"
proof (intro conjI impI allI)
  show "apply_operation (GetUpload uid) st = st" by simp
  show "apply_operation (GetPoints uid) st = st" by simp
  show "apply_operation (GetInsights eng mb uid) st = st" by simp
next
  assume "uploads st uid = None"
  then show "apply_operation (StartGeocoding refused g uid) st = st"
    by (simp add: start_geocoding_missing)
next
  fix uid' assume ne: "uid' \<noteq> uid"
  then show "uploads (apply_operation (StartGeocoding refused g uid) st) uid' = uploads st uid'"
    by (simp add: start_geocoding_other)
next
  assume "\<forall>n q. \<not> refused n q"
  then show "\<not> thrown (start_geocoding refused g uid st)" by (rule start_geocoding_accepted)
next
  assume ex: "uploads st uid \<noteq> None" and ok: "\<not> thrown (start_geocoding refused g uid st)"
  note f = start_geocoding_completed[OF ex ok]
  note w = start_geocoding_writes[of refused g uid st, THEN conjunct2, THEN conjunct2, THEN mp, OF ex]
  define s where "s = (if pending_rows uid st = [] \<or> (\<exists>r \<in> set (pending_rows uid st). succeeded (g r))
                        then Done else UploadFailed)"
  from f have sw: "status_writes (start_geocoding refused g uid st) = [Processing, s]"
    unfolding s_def by blast
  with w have "uploads (apply_operation (StartGeocoding refused g uid) st) uid = Some s" by simp
  moreover have "s = Done \<or> s = UploadFailed" unfolding s_def by simp
  ultimately show "\<exists>s. (s = Done \<or> s = UploadFailed)
          \<and> status_writes (start_geocoding refused g uid st) = [Processing, s]
          \<and> uploads (apply_operation (StartGeocoding refused g uid) st) uid = Some s"
    using sw by blast
next
  show "status_writes (start_geocoding refused g uid st)
      \<in> {[], [UploadFailed], [Processing], [Processing, UploadFailed], [Processing, Done]}"
    using start_geocoding_writes[of refused g uid st] by blast
next
  assume ex: "uploads st uid \<noteq> None"
  from start_geocoding_writes[of refused g uid st, THEN conjunct2, THEN conjunct2, THEN mp, OF ex]
  show "uploads (apply_operation (StartGeocoding refused g uid) st) uid
              = (if status_writes (start_geocoding refused g uid st) = [] then uploads st uid
                 else Some (last (status_writes (start_geocoding refused g uid st))))"
    by simp
qed

theorem status_written_only_by_runs_witness:
  "uploads sample_store 7 = Some Uploaded
   \<and> \<not> thrown (start_geocoding no_faults sample_resolver 7 sample_store)
   \<and> (\<exists>s. (s = Done \<or> s = UploadFailed)
          \<and> status_writes (start_geocoding no_faults sample_resolver 7 sample_store) = [Processing, s]
          \<and> uploads (apply_operation (StartGeocoding no_faults sample_resolver 7) sample_store) 7 = Some s)
   \<and> uploads (apply_operation (StartGeocoding no_faults sample_resolver 7) sample_store) 8
        = Some UploadFailed"
proof -
  have e7: "uploads sample_store 7 \<noteq> None" by (simp add: sample_store_uploads)
  have ne: "(8::nat) \<noteq> 7" by simp
  note t = status_written_only_by_runs[of 7 sample_store sample_engine no_mapbox no_faults sample_resolver]
  note other = t[THEN conjunct2, THEN conjunct2, THEN conjunct2, THEN conjunct2, THEN conjunct1,
      rule_format, OF ne]
  note run = t[THEN conjunct2, THEN conjunct2, THEN conjunct2, THEN conjunct2, THEN conjunct2,
      THEN mp, OF e7]
  note acc = run[THEN conjunct1, THEN mp, OF no_faults_accepts]
  note wr = run[THEN conjunct2, THEN conjunct1, THEN mp, OF acc]
  from other acc wr show ?thesis by (simp add: sample_store_uploads)
qed

theorem terminal_status_left_counterexample:
  "uploads sample_store 8 = Some UploadFailed
   \<and> uploads (apply_operation (StartGeocoding no_faults failing_resolver 8) sample_store) 8 = Some Done"
proof -
  have e8: "uploads sample_store 8 \<noteq> None" by (simp add: sample_store_uploads)
  have ok: "\<not> thrown (start_geocoding no_faults failing_resolver 8 sample_store)"
    using no_faults_accepts by (rule start_geocoding_accepted)
  from start_geocoding_completed[OF e8 ok]
  have "status_writes (start_geocoding no_faults failing_resolver 8 sample_store) = [Processing, Done]"
    by (simp add: sample_store_pending)
  with start_geocoding_writes[of no_faults failing_resolver 8 sample_store] e8
  show ?thesis by (simp add: sample_store_uploads)
qed

section \<open>Claims about labels and the display radius\<close>

text \<open>
  C7, as the code has it. Without candidates (the request fails, the response is not ok,
  it has no features or an empty list) the label is the coordinate string. Otherwise the
  candidate is the first one that has the first preferred classification, in the order
  neighborhood, locality, place, district, region, that any candidate has; for a candidate
  with a name the label is "name / locality" or else "name / region" where that one exists
  and differs from the name, else the bare name. If no candidate has a preferred
  classification, only the first candidate is looked at: if it is not an address and has a
  name, the label is its name; if it is an address, the label is the coordinate string
  "Near lat, lng" with two decimals.
\<close>
theorem reverseGeocode_label_policy:
  "reverseGeocode lt lg FetchError = near_text lt lg
   \<and> reverseGeocode lt lg (NotOk code) = near_text lt lg
   \<and> reverseGeocode lt lg (Body None) = near_text lt lg
   \<and> reverseGeocode lt lg (Body (Some [])) = near_text lt lg
   \<and> (\<forall>fs t f. fs \<noteq> [] \<and> preferred_type fs = Some t \<and> find (has_type t) fs = Some f
          \<and> truthy (f_text f)
        \<longrightarrow> reverseGeocode lt lg (Body (Some fs)) = composed_label f)
   \<and> (\<forall>fs. fs \<noteq> [] \<and> preferred_type fs = None \<and> \<not> has_type ''address'' (hd fs)
          \<and> truthy (f_text (hd fs))
        \<longrightarrow> reverseGeocode lt lg (Body (Some fs)) = the (f_text (hd fs)))
   \<and> (\<forall>fs. fs \<noteq> [] \<and> preferred_type fs = None \<and> has_type ''address'' (hd fs)
        \<longrightarrow> reverseGeocode lt lg (Body (Some fs)) = near_text lt lg)
   \<and> near_text lt lg = ''Near '' @ toFixed2 lt @ '', '' @ toFixed2 lg"
proof (intro conjI allI impI)
  show "reverseGeocode lt lg FetchError = near_text lt lg" by (simp add: reverseGeocode_def)
  show "reverseGeocode lt lg (NotOk code) = near_text lt lg" by (simp add: reverseGeocode_def)
  show "reverseGeocode lt lg (Body None) = near_text lt lg" by (simp add: reverseGeocode_def)
  show "reverseGeocode lt lg (Body (Some [])) = near_text lt lg" by (simp add: reverseGeocode_def)
  show "near_text lt lg = ''Near '' @ toFixed2 lt @ '', '' @ toFixed2 lg"
    by (simp add: near_text_def coords_text_def)
next
  fix fs t f
  assume a: "fs \<noteq> [] \<and> preferred_type fs = Some t \<and> find (has_type t) fs = Some f
      \<and> truthy (f_text f)"
  then have "first_priority priorityTypes fs = Some f" by (simp add: first_priority_preferred)
  with a show "reverseGeocode lt lg (Body (Some fs)) = composed_label f"
    by (simp add: reverseGeocode_features area_label_named)
next
  fix fs
  assume a: "fs \<noteq> [] \<and> preferred_type fs = None \<and> \<not> has_type ''address'' (hd fs)
      \<and> truthy (f_text (hd fs))"
  then have n: "first_priority priorityTypes fs = None" by (simp add: first_priority_preferred)
  from a have "js_string (f_text (hd fs)) = the (f_text (hd fs))"
    by (cases "f_text (hd fs)") (simp_all add: truthy_def js_string_def)
  with a n show "reverseGeocode lt lg (Body (Some fs)) = the (f_text (hd fs))"
    by (simp add: reverseGeocode_features)
next
  fix fs
  assume a: "fs \<noteq> [] \<and> preferred_type fs = None \<and> has_type ''address'' (hd fs)"
  then have n: "first_priority priorityTypes fs = None" by (simp add: first_priority_preferred)
  with a show "reverseGeocode lt lg (Body (Some fs)) = near_text lt lg"
    by (simp add: reverseGeocode_features)
qed

theorem reverseGeocode_label_policy_witness:
  "preferred_type [cafe_feature, city_feature, hood_feature] = Some ''neighborhood''
   \<and> find (has_type ''neighborhood'') [cafe_feature, city_feature, hood_feature] = Some hood_feature
   \<and> truthy (f_text hood_feature)
   \<and> reverseGeocode 10 20 (Body (Some [cafe_feature, city_feature, hood_feature]))
        = ''Mission District / California''
   \<and> preferred_type [cafe_feature, street_feature] = None
   \<and> \<not> has_type ''address'' cafe_feature
   \<and> reverseGeocode 10 20 (Body (Some [cafe_feature, street_feature])) = ''Cafe''
   \<and> reverseGeocode 10 20 (Body (Some [])) = ''Near 10.00, 20.00''"
proof -
  note t = reverseGeocode_label_policy[of 10 20 0]
  have h: "[cafe_feature, city_feature, hood_feature] \<noteq> []
      \<and> preferred_type [cafe_feature, city_feature, hood_feature] = Some ''neighborhood''
      \<and> find (has_type ''neighborhood'') [cafe_feature, city_feature, hood_feature] = Some hood_feature
      \<and> truthy (f_text hood_feature)"
    by (simp add: sample_preferred sample_feature_types sample_names)
  have c: "[cafe_feature, street_feature] \<noteq> [] \<and> preferred_type [cafe_feature, street_feature] = None
      \<and> \<not> has_type ''address'' (hd [cafe_feature, street_feature])
      \<and> truthy (f_text (hd [cafe_feature, street_feature]))"
    by (simp add: sample_preferred sample_feature_types sample_names truthy_def)
  note named = t[THEN conjunct2, THEN conjunct2, THEN conjunct2, THEN conjunct2, THEN conjunct1,
      rule_format, OF h]
  note first = t[THEN conjunct2, THEN conjunct2, THEN conjunct2, THEN conjunct2, THEN conjunct2,
      THEN conjunct1, rule_format, OF c]
  note empty = t[THEN conjunct2, THEN conjunct2, THEN conjunct2, THEN conjunct1]
  from named first empty h c show ?thesis
    by (simp add: sample_composed near_10_20 sample_names sample_feature_types)
qed

theorem first_non_address_candidate_counterexample:
  "preferred_type [street_feature, cafe_feature] = None
   \<and> \<not> has_type ''address'' cafe_feature
   \<and> f_text cafe_feature = Some ''Cafe''
   \<and> reverseGeocode 10 20 (Body (Some [street_feature, cafe_feature])) = ''Near 10.00, 20.00''
   \<and> reverseGeocode 10 20 (Body (Some [street_feature, cafe_feature])) \<noteq> ''Cafe''"
proof -
  have n: "first_priority priorityTypes [street_feature, cafe_feature] = None"
    by (simp add: first_priority_preferred sample_preferred)
  have "reverseGeocode 10 20 (Body (Some [street_feature, cafe_feature])) = near_text 10 20"
    using n by (simp add: reverseGeocode_def sample_feature_types)
  then show ?thesis
    by (simp add: near_10_20 sample_preferred sample_feature_types sample_names)
qed

text \<open>
  C8, as the code has it. The display radius is computed by the presentation layer, from
  the \<open>distanceKm\<close> of a whitespace area of the report, as
  \<open>min(3, max(0.5, ceil(distanceKm)))\<close>; since a reported distance is at most 3.0, this is
  \<open>max(0.5, ceil(distanceKm))\<close>, one of 0.5, 1, 2 and 3 km. The report itself, as sent by
  the insight engine, has the fields cellId, count, center, distanceKm and label for a
  whitespace area, and no radius.
\<close>
theorem display_radius_from_reported_distance:
  "(\<forall>w \<in> set (whiteSpaceAreas (fst (insights eng mb uid rows))).
       radius w = min 3 (max (1 / 2) (of_int \<lceil>distanceKm w\<rceil>))
       \<and> radius w = max (1 / 2) (of_int \<lceil>distanceKm w\<rceil>)
       \<and> (radius w = 1 / 2 \<or> radius w = 1 \<or> radius w = 2 \<or> radius w = 3)
       \<and> json_field ''distanceKm'' (whitespace_json w) = Some (JNum (distanceKm w))
       \<and> json_field ''radius'' (whitespace_json w) = None)
   \<and> json_field ''whiteSpaceAreas'' (insights_json (fst (insights eng mb uid rows)))
        = Some (JArr (map whitespace_json (whiteSpaceAreas (fst (insights eng mb uid rows)))))"
proof (intro conjI ballI)
  fix w assume w: "w \<in> set (whiteSpaceAreas (fst (insights eng mb uid rows)))"
  note v = radius_values[OF area_distance_le_3[OF w]]
  show "radius w = min 3 (max (1 / 2) (of_int \<lceil>distanceKm w\<rceil>))"
    by (simp add: radius_def js_ceil_def)
  show "radius w = max (1 / 2) (of_int \<lceil>distanceKm w\<rceil>)" using v by blast
  show "radius w = 1 / 2 \<or> radius w = 1 \<or> radius w = 2 \<or> radius w = 3" using v by blast
  show "json_field ''distanceKm'' (whitespace_json w) = Some (JNum (distanceKm w))"
    by (simp add: whitespace_json_fields)
  show "json_field ''radius'' (whitespace_json w) = None"
    by (simp add: whitespace_json_fields)
next
  show "json_field ''whiteSpaceAreas'' (insights_json (fst (insights eng mb uid rows)))
        = Some (JArr (map whitespace_json (whiteSpaceAreas (fst (insights eng mb uid rows)))))"
    by (simp add: json_field_def insights_json_def)
qed

theorem display_radius_from_reported_distance_witness:
  "last (whiteSpaceAreas (fst (insights sample_engine no_mapbox 7 sample_rows)))
     \<in> set (whiteSpaceAreas (fst (insights sample_engine no_mapbox 7 sample_rows)))
   \<and> distanceKm (last (whiteSpaceAreas (fst (insights sample_engine no_mapbox 7 sample_rows)))) = 3
   \<and> radius (last (whiteSpaceAreas (fst (insights sample_engine no_mapbox 7 sample_rows)))) = 3
   \<and> distanceKm (hd (whiteSpaceAreas (fst (insights sample_engine no_mapbox 7 sample_rows))))
        = float64 (11 / 10)
   \<and> radius (hd (whiteSpaceAreas (fst (insights sample_engine no_mapbox 7 sample_rows)))) = 2"
proof -
  let ?ws = "whiteSpaceAreas (fst (insights sample_engine no_mapbox 7 sample_rows))"
  have m1: "last ?ws \<in> set ?ws" and m2: "hd ?ws \<in> set ?ws" by (simp_all add: sample_areas)
  have d1: "distanceKm (last ?ws) = 3" and d2: "distanceKm (hd ?ws) = float64 (11 / 10)"
    by (simp_all add: sample_areas)
  note t = display_radius_from_reported_distance[of sample_engine no_mapbox 7 sample_rows,
      THEN conjunct1]
  have c1: "\<lceil>3 :: real\<rceil> = 3" and c2: "\<lceil>float64 (11 / 10)\<rceil> = 2"
    by (simp_all add: float_eval)
  from bspec[OF t m1] bspec[OF t m2] m1 show ?thesis
    unfolding d1 d2 c1 c2 by simp
qed

theorem radius_not_in_report_counterexample:
  "json_field ''whiteSpaceAreas''
       (insights_json (fst (insights sample_engine no_mapbox 7 sample_rows)))
     = Some (JArr (map whitespace_json
         (whiteSpaceAreas (fst (insights sample_engine no_mapbox 7 sample_rows)))))
   \<and> length (whiteSpaceAreas (fst (insights sample_engine no_mapbox 7 sample_rows))) = 3
   \<and> json_field ''distanceKm''
        (whitespace_json (hd (whiteSpaceAreas (fst (insights sample_engine no_mapbox 7 sample_rows)))))
       = Some (JNum (float64 (11 / 10)))
   \<and> json_field ''radius''
        (whitespace_json (hd (whiteSpaceAreas (fst (insights sample_engine no_mapbox 7 sample_rows)))))
       = None"
  by (simp add: json_field_def insights_json_def whitespace_json_def sample_areas)

text \<open>
  C6 on the code. The reverse-geocoding requests of one insights computation are one for
  every dense area, whatever their keys, and one for every whitespace area whose key is
  not the key of a dense area: the cache, fresh in each computation, is read by all
  lookups of a round before any of them has stored its label. For the two rows at 37.775
  and 37.774 north the cells are "37.78,-122.42" and "37.77,-122.42", both dense in
  whatever order the engine returns them; their centres both have the key
  "37.77,-122.42"; and two requests are made.
\<close>
theorem reverse_geocode_requests:
  "snd (insights eng mb uid rows) =
     map cell_center (denseAreasResult eng uid rows)
     @ filter (\<lambda>p. cache_key p \<notin> cache_key ` set (map cell_center (denseAreasResult eng uid rows)))
         (map (\<lambda>row. cell_center (fst row)) (whiteSpaceQuery eng uid rows))
   \<and> cellId ` set (topDenseAreas (fst (insights eng mb 7 boundary_rows)))
        = {''37.78,-122.42'', ''37.77,-122.42''}
   \<and> length (topDenseAreas (fst (insights eng mb 7 boundary_rows))) = 2
   \<and> map (\<lambda>a. cache_key (center a)) (topDenseAreas (fst (insights eng mb 7 boundary_rows)))
        = [''37.77,-122.42'', ''37.77,-122.42'']
   \<and> map cache_key (snd (insights eng mb 7 boundary_rows)) = [''37.77,-122.42'', ''37.77,-122.42'']
   \<and> length (snd (insights eng mb 7 boundary_rows)) = 2"
proof (intro conjI)
  let ?D = "denseAreasResult eng 7 boundary_rows"
  let ?k = "''37.77,-122.42''"
  show "snd (insights eng mb uid rows) =
     map cell_center (denseAreasResult eng uid rows)
     @ filter (\<lambda>p. cache_key p \<notin> cache_key ` set (map cell_center (denseAreasResult eng uid rows)))
         (map (\<lambda>row. cell_center (fst row)) (whiteSpaceQuery eng uid rows))"
    by (rule insights_calls)
  have short: "length (grid_cells 7 boundary_rows) \<le> 3" by (simp add: boundary_short)
  note sg = short_grid[OF short, of eng]
  from sg have D: "set ?D = set (grid_cells 7 boundary_rows)" and len: "length ?D = 2"
    and q: "whiteSpaceQuery eng 7 boundary_rows = []"
    by (simp_all add: boundary_short)
  have keys: "map (\<lambda>c. cache_key (cell_center c)) ?D = replicate (length ?D) ?k"
    by (rule map_const_replicate) (simp add: D boundary_keys)
  then have keys2: "map (\<lambda>c. cache_key (cell_center c)) ?D = [?k, ?k]"
    unfolding len by (simp add: numeral_2_eq_2)
  have calls: "snd (insights eng mb 7 boundary_rows) = map cell_center ?D"
    by (simp add: insights_calls q)
  show "map cache_key (snd (insights eng mb 7 boundary_rows)) = [?k, ?k]"
    unfolding calls using keys2 by (simp add: comp_def)
  show "length (snd (insights eng mb 7 boundary_rows)) = 2"
    unfolding calls by (simp add: len)
  note top = top_of_result[of eng mb 7 boundary_rows]
  show "cellId ` set (topDenseAreas (fst (insights eng mb 7 boundary_rows)))
        = {''37.78,-122.42'', ''37.77,-122.42''}"
    unfolding top_ids D by (rule boundary_ids)
  show "length (topDenseAreas (fst (insights eng mb 7 boundary_rows))) = 2"
    using arg_cong[OF top, of length] by (simp add: len)
  have "map (\<lambda>a. cache_key (center a)) (topDenseAreas (fst (insights eng mb 7 boundary_rows)))
      = map (\<lambda>c. cache_key (cell_center c)) ?D"
    using arg_cong[OF top, of "map (\<lambda>(a, b, c). cache_key c)"] by (simp add: comp_def)
  then show "map (\<lambda>a. cache_key (center a)) (topDenseAreas (fst (insights eng mb 7 boundary_rows)))
        = [?k, ?k]"
    unfolding keys2 .
qed

end
